theory Spec2Isabelle
  imports Complex_Main "HOL-Library.Sublist" "HOL-Library.Multiset"
begin

text \<open>
  A model of the library code generation agent: the stages of its workflow and the graph
  that runs them (\<open>src/agent\<close>), the vector store, the context manager and the chunker
  (\<open>src/context\<close>), followed by the properties of these that its specification states.
  Exceptions are values of the type \<open>error\<close>; a loop that may run forever takes a bound
  on its iterations and returns \<open>None\<close> when the bound does not suffice.
\<close>

section \<open>Python strings\<close>

text \<open>
  A Python \<open>str\<close> is modelled as a \<open>string\<close>: one \<open>char\<close> of the model is one character
  of the Python string, restricted to the code points below 256. \<open>len\<close> is \<open>length\<close>.
\<close>

definition py_lower_char :: "char \<Rightarrow> char" where
  \<comment> \<open>\<open>str.lower\<close> on one character: A-Z and the upper-case letters of Latin-1 move by 32.\<close>
  "py_lower_char c =
     (let n = (of_char c :: nat)
      in if (65 \<le> n \<and> n \<le> 90) \<or> (192 \<le> n \<and> n \<le> 222 \<and> n \<noteq> 215)
         then char_of (n + 32) else c)"

definition py_lower :: "string \<Rightarrow> string" where
  "py_lower s = map py_lower_char s"

fun py_in :: "string \<Rightarrow> string \<Rightarrow> bool" where
  \<comment> \<open>\<open>sub in s\<close>: \<open>sub\<close> occurs in \<open>s\<close> as a contiguous substring.\<close>
  "py_in sub [] = (sub = [])"
| "py_in sub (c # cs) = (prefix sub (c # cs) \<or> py_in sub cs)"

definition py_isspace :: "char \<Rightarrow> bool" where
  \<comment> \<open>The characters below 256 that \<open>str.strip()\<close> removes.\<close>
  "py_isspace c =
     (let n = (of_char c :: nat)
      in (9 \<le> n \<and> n \<le> 13) \<or> (28 \<le> n \<and> n \<le> 32) \<or> n = 133 \<or> n = 160)"

definition py_strip :: "string \<Rightarrow> string" where
  "py_strip s = rev (dropWhile py_isspace (rev (dropWhile py_isspace s)))"

fun py_join :: "string \<Rightarrow> string list \<Rightarrow> string" where
  \<comment> \<open>\<open>sep.join(xs)\<close>\<close>
  "py_join sep [] = []"
| "py_join sep [x] = x"
| "py_join sep (x # y # ys) = x @ sep @ py_join sep (y # ys)"

definition py_norm :: "int \<Rightarrow> int \<Rightarrow> nat" where
  \<comment> \<open>A slice bound \<open>i\<close> on a sequence of length \<open>n\<close>: a negative bound counts from the
      end, and the result is clamped to \<open>0..n\<close>.\<close>
  "py_norm n i = (if i < 0 then nat (max 0 (i + n)) else nat (min i n))"

definition py_slice :: "'a list \<Rightarrow> int \<Rightarrow> int \<Rightarrow> 'a list" where
  \<comment> \<open>\<open>xs[i:j]\<close>\<close>
  "py_slice xs i j =
     (let n = int (length xs); a = py_norm n i; b = py_norm n j
      in drop a (take b xs))"

definition py_take :: "int \<Rightarrow> 'a list \<Rightarrow> 'a list" where
  \<comment> \<open>\<open>xs[:k]\<close>: for a negative \<open>k\<close> all but the last \<open>-k\<close> elements.\<close>
  "py_take k xs = take (py_norm (int (length xs)) k) xs"

section \<open>Workflow state and stages (src/agent)\<close>

datatype error = KeyError | ValueError | RecursionLimit | Raised string

datatype pyval =
    PNone | PBool bool | PInt int | PStr string
  | PList "pyval list" | PDict "(string \<times> pyval) list"

type_synonym pydict = "(string \<times> pyval) list"

fun truthy :: "pyval \<Rightarrow> bool" where
  "truthy PNone = False"
| "truthy (PBool b) = b"
| "truthy (PInt i) = (i \<noteq> 0)"
| "truthy (PStr s) = (s \<noteq> [])"
| "truthy (PList xs) = (xs \<noteq> [])"
| "truthy (PDict kvs) = (kvs \<noteq> [])"

datatype message = SystemMessage string | HumanMessage string | AIMessage string

text \<open>
  \<open>AgentState\<close> is a dict. The keys that \<open>CodeGenAgent.generate_code\<close> puts into the
  initial state are plain fields; \<open>iteration_count\<close> and every key that a stage adds later
  are options, \<open>None\<close> standing for a key that is absent from the dict.
\<close>

record agent_state =
  library_name :: string
  task :: string
  messages :: "message list"
  search_results :: "pydict list option"
  crawled_documentation :: "pyval option"
  github_info :: "pyval option"
  code_examples :: "string list option"
  relevant_context :: "string list option"
  generated_code :: "string option"
  explanation :: "string option"
  confidence_score :: real
  iteration_count :: "int option"
  error_message :: "string option"
  next_action :: "string option"

record settings =
  max_iterations :: int
  max_context_tokens :: int
  chunk_size :: int
  chunk_overlap :: int
  top_k_results :: int

definition default_settings :: settings where
  "default_settings =
     \<lparr>max_iterations = 10, max_context_tokens = 8000, chunk_size = 1000,
      chunk_overlap = 200, top_k_results = 5\<rparr>"

text \<open>
  The collaborators of \<open>AgentNodes\<close> (generation client, crawler, repository analyser,
  example extractor, context manager) are parameters. Each call reads and changes an
  outside world \<open>'w\<close> and either raises or returns. The stages reach the context
  manager through \<open>cm_index_content\<close> and \<open>cm_retrieve\<close>; what its retrieval computes
  is modelled on its own below, in the section on the context manager.
\<close>

record 'w env =
  llm_generate :: "message list \<Rightarrow> 'w \<Rightarrow> (error + string) \<times> 'w"
  crawler_search :: "string \<Rightarrow> string \<Rightarrow> 'w \<Rightarrow> (error + pydict list) \<times> 'w"
  crawler_crawl :: "pyval \<Rightarrow> string \<Rightarrow> 'w \<Rightarrow> (error + pyval) \<times> 'w"
  github_analyze :: "string \<Rightarrow> 'w \<Rightarrow> (error + pyval) \<times> 'w"
  examples_extract :: "pyval option \<Rightarrow> pyval option \<Rightarrow> 'w \<Rightarrow> (error + string list) \<times> 'w"
  cm_index_content ::
    "pyval option \<Rightarrow> pyval option \<Rightarrow> string list option \<Rightarrow> 'w \<Rightarrow> (error + unit) \<times> 'w"
  cm_retrieve :: "string \<Rightarrow> string \<Rightarrow> 'w \<Rightarrow> (error + string list) \<times> 'w"

definition analysis_system_prompt :: string where
  "analysis_system_prompt =
     ''You are an expert at analyzing code generation requests.\<newline>'' @
     ''Determine what information would be needed to generate code for an unknown library.\<newline>'' @
     ''Consider: documentation, API references, code examples, GitHub repository.''"

definition analysis_prompt :: "agent_state \<Rightarrow> string" where
  "analysis_prompt state =
     ''\<newline>Library: '' @ library_name state @
     ''\<newline>Task: '' @ task state @
     ''\<newline>\<newline>What information should we gather? Respond with a JSON object containing:\<newline>'' @
     ''- needs_documentation: bool\<newline>'' @
     ''- needs_github_analysis: bool\<newline>'' @
     ''- needs_code_examples: bool\<newline>'' @
     ''- search_query: str (optimized search query for documentation)\<newline>''"

definition analyze_query ::
  "'w env \<Rightarrow> agent_state \<Rightarrow> 'w \<Rightarrow> (error + agent_state) \<times> 'w" where
  "analyze_query env state w =
     (case llm_generate env
             [SystemMessage analysis_system_prompt, HumanMessage (analysis_prompt state)] w of
        (Inl e, w') \<Rightarrow> (Inl e, w')
      | (Inr response, w') \<Rightarrow>
          (Inr (state\<lparr>messages := [HumanMessage (analysis_prompt state), AIMessage response],
                      next_action := Some ''search_documentation''\<rparr>), w'))"

definition search_documentation ::
  "'w env \<Rightarrow> agent_state \<Rightarrow> 'w \<Rightarrow> (error + agent_state) \<times> 'w" where
  "search_documentation env state w =
     (case crawler_search env (library_name state) (task state) w of
        (Inl e, w') \<Rightarrow> (Inl e, w')
      | (Inr results, w') \<Rightarrow>
          (Inr (state\<lparr>search_results := Some results,
                      next_action := Some ''crawl_documentation''\<rparr>), w'))"

definition crawl_documentation ::
  "'w env \<Rightarrow> agent_state \<Rightarrow> 'w \<Rightarrow> (error + agent_state) \<times> 'w" where
  "crawl_documentation env state w =
     (case search_results state of
        None \<Rightarrow> (Inr (state\<lparr>next_action := Some ''analyze_github''\<rparr>), w)
      | Some [] \<Rightarrow> (Inr (state\<lparr>next_action := Some ''analyze_github''\<rparr>), w)
      | Some (result0 # _) \<Rightarrow>
          (case map_of result0 ''url'' of
             None \<Rightarrow> (Inr (state\<lparr>next_action := Some ''analyze_github''\<rparr>), w)
           | Some top_url \<Rightarrow>
               if \<not> truthy top_url
               then (Inr (state\<lparr>next_action := Some ''analyze_github''\<rparr>), w)
               else
                 (case crawler_crawl env top_url
                         (''Extract API documentation and usage examples for '' @
                          library_name state) w of
                    (Inl e, w') \<Rightarrow> (Inl e, w')
                  | (Inr crawled_data, w') \<Rightarrow>
                      (Inr (state\<lparr>crawled_documentation := Some crawled_data,
                                  next_action := Some ''analyze_github''\<rparr>), w'))))"

definition analyze_github ::
  "'w env \<Rightarrow> agent_state \<Rightarrow> 'w \<Rightarrow> (error + agent_state) \<times> 'w" where
  "analyze_github env state w =
     (case github_analyze env (library_name state) w of
        (Inl e, w') \<Rightarrow> (Inl e, w')
      | (Inr info, w') \<Rightarrow>
          (Inr (state\<lparr>github_info := Some info,
                      next_action := Some ''extract_examples''\<rparr>), w'))"

definition extract_examples ::
  "'w env \<Rightarrow> agent_state \<Rightarrow> 'w \<Rightarrow> (error + agent_state) \<times> 'w" where
  "extract_examples env state w =
     (case examples_extract env (crawled_documentation state) (github_info state) w of
        (Inl e, w') \<Rightarrow> (Inl e, w')
      | (Inr examples, w') \<Rightarrow>
          (Inr (state\<lparr>code_examples := Some examples,
                      next_action := Some ''manage_context''\<rparr>), w'))"

definition manage_context ::
  "'w env \<Rightarrow> agent_state \<Rightarrow> 'w \<Rightarrow> (error + agent_state) \<times> 'w" where
  "manage_context env state w =
     (case cm_index_content env (crawled_documentation state) (github_info state)
             (code_examples state) w of
        (Inl e, w') \<Rightarrow> (Inl e, w')
      | (Inr _, w') \<Rightarrow>
          (case cm_retrieve env (task state) (library_name state) w' of
             (Inl e, w'') \<Rightarrow> (Inl e, w'')
           | (Inr context, w'') \<Rightarrow>
               (Inr (state\<lparr>relevant_context := Some context,
                           next_action := Some ''generate_code''\<rparr>), w'')))"

definition generation_system_prompt :: string where
  "generation_system_prompt =
     ''You are an expert Python developer. Generate clean, working code\<newline>'' @
     ''based on the provided documentation and examples. Include proper error handling and comments.''"

definition generation_prompt :: "agent_state \<Rightarrow> string" where
  "generation_prompt state =
     ''\<newline>Library: '' @ library_name state @
     ''\<newline>Task: '' @ task state @
     ''\<newline>\<newline>Available Documentation and Examples:\<newline>'' @
     py_join ''\<newline>\<newline>''
       (case relevant_context state of None \<Rightarrow> [] | Some ctx \<Rightarrow> ctx) @
     ''\<newline>\<newline>Generate Python code to accomplish the task. Include:\<newline>'' @
     ''1. Required imports\<newline>'' @
     ''2. Main implementation\<newline>'' @
     ''3. Example usage\<newline>'' @
     ''4. Brief explanation of how it works\<newline>''"

definition generate_code ::
  "'w env \<Rightarrow> agent_state \<Rightarrow> 'w \<Rightarrow> (error + agent_state) \<times> 'w" where
  "generate_code env state w =
     (case llm_generate env
             [SystemMessage generation_system_prompt, HumanMessage (generation_prompt state)] w of
        (Inl e, w') \<Rightarrow> (Inl e, w')
      | (Inr response, w') \<Rightarrow>
          (Inr (state\<lparr>generated_code := Some response,
                      messages := messages state @ [AIMessage response],
                      next_action := Some ''validate_code''\<rparr>), w'))"

definition validate_code :: "agent_state \<Rightarrow> agent_state" where
  "validate_code state =
     (let code = (case generated_code state of None \<Rightarrow> [] | Some c \<Rightarrow> c);
          state' =
            (if \<not> py_in (py_lower (library_name state)) (py_lower code)
             then state\<lparr>confidence_score := 0.3,
                        error_message := Some ''Generated code may not use the specified library''\<rparr>
             else state\<lparr>confidence_score := 0.8\<rparr>)
      in state'\<lparr>next_action := Some ''end''\<rparr>)"

definition should_continue :: "agent_state \<Rightarrow> string" where
  "should_continue state =
     (let next_action = (case next_action state of None \<Rightarrow> ''end'' | Some a \<Rightarrow> a)
      in if (case iteration_count state of None \<Rightarrow> 0 | Some n \<Rightarrow> n) \<ge> 10
         then ''end'' else next_action)"

subsection \<open>The graph (src/agent/graph.py)\<close>

datatype node =
    AnalyzeQuery | SearchDocumentation | CrawlDocumentation | AnalyzeGithub
  | ExtractExamples | ManageContext | GenerateCode | ValidateCode

fun node_fn :: "node \<Rightarrow> 'w env \<Rightarrow> agent_state \<Rightarrow> 'w \<Rightarrow> (error + agent_state) \<times> 'w" where
  "node_fn AnalyzeQuery env s w = analyze_query env s w"
| "node_fn SearchDocumentation env s w = search_documentation env s w"
| "node_fn CrawlDocumentation env s w = crawl_documentation env s w"
| "node_fn AnalyzeGithub env s w = analyze_github env s w"
| "node_fn ExtractExamples env s w = extract_examples env s w"
| "node_fn ManageContext env s w = manage_context env s w"
| "node_fn GenerateCode env s w = generate_code env s w"
| "node_fn ValidateCode env s w = (Inr (validate_code s), w)"

fun conditional_edges :: "node \<Rightarrow> (string \<times> node option) list" where
  \<comment> \<open>The path map of each node; \<open>None\<close> is \<open>END\<close>.\<close>
  "conditional_edges AnalyzeQuery =
     [(''search_documentation'', Some SearchDocumentation), (''end'', None)]"
| "conditional_edges SearchDocumentation =
     [(''crawl_documentation'', Some CrawlDocumentation),
      (''analyze_github'', Some AnalyzeGithub), (''end'', None)]"
| "conditional_edges CrawlDocumentation =
     [(''analyze_github'', Some AnalyzeGithub), (''end'', None)]"
| "conditional_edges AnalyzeGithub =
     [(''extract_examples'', Some ExtractExamples), (''end'', None)]"
| "conditional_edges ExtractExamples =
     [(''manage_context'', Some ManageContext), (''end'', None)]"
| "conditional_edges ManageContext =
     [(''generate_code'', Some GenerateCode), (''end'', None)]"
| "conditional_edges GenerateCode =
     [(''validate_code'', Some ValidateCode), (''end'', None)]"
| "conditional_edges ValidateCode = []"

definition next_node :: "node \<Rightarrow> agent_state \<Rightarrow> error + node option" where
  \<comment> \<open>\<open>validate_code\<close> has the plain edge to \<open>END\<close>; every other node routes through
      \<open>should_continue\<close> and its path map, and a result that is no key of the map raises.\<close>
  "next_node nd s =
     (if nd = ValidateCode then Inr None
      else case map_of (conditional_edges nd) (should_continue s) of
             None \<Rightarrow> Inl KeyError
           | Some target \<Rightarrow> Inr target)"

text \<open>
  \<open>_build_graph\<close> compiles a LangGraph \<open>StateGraph\<close>. A run executes the function of
  the current node on the state; the state that the function returns is the state of the
  graph from then on, and the next node is looked up in the path map of the current node.
  The reducer of the key \<open>messages\<close>, which merges the returned list of messages into the
  stored one, is left out: it touches no other key.
\<close>

fun run_graph ::
  "nat \<Rightarrow> 'w env \<Rightarrow> node \<Rightarrow> agent_state \<Rightarrow> 'w \<Rightarrow> (error + agent_state) \<times> 'w" where
  \<comment> \<open>The first argument is the number of nodes the graph may still run: LangGraph's
      \<open>recursion_limit\<close> less one.\<close>
  "run_graph 0 env nd s w = (Inl RecursionLimit, w)"
| "run_graph (Suc n) env nd s w =
     (case node_fn nd env s w of
        (Inl e, w') \<Rightarrow> (Inl e, w')
      | (Inr s', w') \<Rightarrow>
          (case next_node nd s' of
             Inl e \<Rightarrow> (Inl e, w')
           | Inr None \<Rightarrow> (Inr s', w')
           | Inr (Some nd') \<Rightarrow> run_graph n env nd' s' w'))"

definition initial_state :: "string \<Rightarrow> string \<Rightarrow> agent_state" where
  "initial_state lib tsk =
     \<lparr>library_name = lib, task = tsk, messages = [],
      search_results = None, crawled_documentation = None, github_info = None,
      code_examples = None, relevant_context = None, generated_code = None,
      explanation = None, confidence_score = 0.0, iteration_count = Some 0,
      error_message = None, next_action = None\<rparr>"

definition agent_run ::
  "nat \<Rightarrow> 'w env \<Rightarrow> string \<Rightarrow> string \<Rightarrow> 'w \<Rightarrow> (error + agent_state) \<times> 'w" where
  \<comment> \<open>\<open>self.graph.ainvoke(initial_state)\<close>, from the entry point \<open>analyze_query\<close>.\<close>
  "agent_run limit env lib tsk w = run_graph limit env AnalyzeQuery (initial_state lib tsk) w"

inductive graph_reaches ::
  "'w env \<Rightarrow> string \<Rightarrow> string \<Rightarrow> 'w \<Rightarrow> node \<Rightarrow> agent_state \<Rightarrow> 'w \<Rightarrow> bool"
  for env lib tsk w0 where
  \<comment> \<open>\<open>graph_reaches env lib tsk w0 nd s w\<close>: the run started on \<open>lib\<close> and \<open>tsk\<close> in world
      \<open>w0\<close> comes to execute the node \<open>nd\<close> on the state \<open>s\<close> in the world \<open>w\<close>.\<close>
  start: "graph_reaches env lib tsk w0 AnalyzeQuery (initial_state lib tsk) w0"
| step: "graph_reaches env lib tsk w0 nd s w \<Longrightarrow> node_fn nd env s w = (Inr s', w') \<Longrightarrow>
         next_node nd s' = Inr (Some nd') \<Longrightarrow> graph_reaches env lib tsk w0 nd' s' w'"

definition example_env :: "unit env" where
  \<comment> \<open>Collaborators that answer every call with a fixed value, for concrete runs.\<close>
  "example_env =
     \<lparr>llm_generate = (\<lambda>msgs w. (Inr ''import requests'', w)),
      crawler_search = (\<lambda>lib tsk w. (Inr [[(''content'', PStr ''docs'')]], w)),
      crawler_crawl = (\<lambda>url instr w. (Inr (PDict []), w)),
      github_analyze = (\<lambda>lib w. (Inr (PDict [(''found'', PBool False)]), w)),
      examples_extract = (\<lambda>doc gh w. (Inr [], w)),
      cm_index_content = (\<lambda>doc gh ex w. (Inr (), w)),
      cm_retrieve = (\<lambda>q lib w. (Inr [], w))\<rparr>"

section \<open>Floating point numbers\<close>

text \<open>
  A float is a real number, an infinity or NaN; a zero has no sign. Comparisons are those
  of IEEE 754: every comparison with NaN is false.
\<close>

datatype pyfloat = Num real | PosInf | NegInf | NaN

fun fl_lt :: "pyfloat \<Rightarrow> pyfloat \<Rightarrow> bool" where
  "fl_lt (Num a) (Num b) = (a < b)"
| "fl_lt (Num a) PosInf = True"
| "fl_lt NegInf (Num b) = True"
| "fl_lt NegInf PosInf = True"
| "fl_lt _ _ = False"

fun fl_le :: "pyfloat \<Rightarrow> pyfloat \<Rightarrow> bool" where
  "fl_le (Num a) (Num b) = (a \<le> b)"
| "fl_le NaN _ = False"
| "fl_le _ NaN = False"
| "fl_le NegInf _ = True"
| "fl_le _ PosInf = True"
| "fl_le _ _ = False"

section \<open>Vector store (src/context/database.py)\<close>

text \<open>
  The table \<open>embeddings\<close> is the list of its rows in the order the cursor yields them. A
  row holds the \<open>float32\<close> components of its vector. The \<open>metadata\<close> column is \<open>None\<close> for
  \<open>NULL\<close>, and otherwise the dict that its JSON text encodes.
\<close>

record embedding_row =
  row_id :: int
  row_text :: string
  row_embedding :: "pyfloat list"
  row_metadata :: "pydict option"

record search_result =
  sr_id :: int
  sr_text :: string
  similarity :: pyfloat
  sr_metadata :: pydict

record scored_result = search_result +
  adjusted_score :: pyfloat

text \<open>
  The arithmetic of numpy and of Python floats and the sorting of lists are not code of the
  repository: they are parameters. \<open>np_array32\<close> is the conversion of one component by
  \<open>np.array(_, dtype=np.float32)\<close>, \<open>np_dot32\<close> is \<open>np.dot\<close> on two \<open>float32\<close> arrays
  of one length, \<open>np_norm32\<close> is \<open>np.linalg.norm\<close>, \<open>f32_mul\<close> and \<open>f32_div\<close> are the
  product and the quotient of \<open>float32\<close> scalars, \<open>f64_mul\<close> is the product of Python floats
  and \<open>f64_literal\<close> the value of a float literal. \<open>sort_by_similarity\<close> and
  \<open>sort_by_adjusted_score\<close> are \<open>list.sort(key=..., reverse=True)\<close> on the two keys.
\<close>

record py_runtime =
  np_array32 :: "pyfloat \<Rightarrow> pyfloat"
  np_dot32 :: "pyfloat list \<Rightarrow> pyfloat list \<Rightarrow> pyfloat"
  np_norm32 :: "pyfloat list \<Rightarrow> pyfloat"
  f32_mul :: "pyfloat \<Rightarrow> pyfloat \<Rightarrow> pyfloat"
  f32_div :: "pyfloat \<Rightarrow> pyfloat \<Rightarrow> pyfloat"
  f64_mul :: "pyfloat \<Rightarrow> pyfloat \<Rightarrow> pyfloat"
  f64_literal :: "real \<Rightarrow> pyfloat"
  sort_by_similarity :: "search_result list \<Rightarrow> search_result list"
  sort_by_adjusted_score :: "scored_result list \<Rightarrow> scored_result list"

fun insert_desc :: "('a \<Rightarrow> pyfloat) \<Rightarrow> 'a \<Rightarrow> 'a list \<Rightarrow> 'a list" where
  "insert_desc key x [] = [x]"
| "insert_desc key x (y # ys) =
     (if fl_lt (key x) (key y) then y # insert_desc key x ys else x # y # ys)"

definition stable_sort_desc :: "('a \<Rightarrow> pyfloat) \<Rightarrow> 'a list \<Rightarrow> 'a list" where
  \<comment> \<open>Sorting by insertion into descending order; elements with equal keys keep their
      order.\<close>
  "stable_sort_desc key xs = foldr (insert_desc key) xs []"

definition python_sort :: "('a \<Rightarrow> pyfloat) \<Rightarrow> ('a list \<Rightarrow> 'a list) \<Rightarrow> bool" where
  \<comment> \<open>What holds of \<open>list.sort(key=key, reverse=True)\<close>: the list is rearranged, and
      when no key is NaN the result is the stable descending order. With a NaN key the
      order is the sorting algorithm's affair.\<close>
  "python_sort key srt =
     ((\<forall>xs. mset (srt xs) = mset xs) \<and>
      (\<forall>xs. (\<forall>x \<in> set xs. key x \<noteq> NaN) \<longrightarrow> srt xs = stable_sort_desc key xs))"

definition np_dot :: "py_runtime \<Rightarrow> pyfloat list \<Rightarrow> pyfloat list \<Rightarrow> error + pyfloat" where
  \<comment> \<open>\<open>np.dot\<close> of two one-dimensional arrays raises on arrays of different lengths.\<close>
  "np_dot rt vec1 vec2 =
     (if length vec1 \<noteq> length vec2 then Inl ValueError
      else Inr (np_dot32 rt vec1 vec2))"

definition cosine_similarity ::
  "py_runtime \<Rightarrow> pyfloat list \<Rightarrow> pyfloat list \<Rightarrow> error + pyfloat" where
  "cosine_similarity rt vec1 vec2 =
     (case np_dot rt vec1 vec2 of
        Inl e \<Rightarrow> Inl e
      | Inr dot_product \<Rightarrow>
          (let norm1 = np_norm32 rt vec1; norm2 = np_norm32 rt vec2
           in if norm1 = Num 0 \<or> norm2 = Num 0 then Inr (Num 0)
              else Inr (f32_div rt dot_product (f32_mul rt norm1 norm2))))"

fun search_rows ::
  "py_runtime \<Rightarrow> pyfloat list \<Rightarrow> embedding_row list \<Rightarrow> error + search_result list" where
  \<comment> \<open>The loop over the cursor: one result per row, in row order.\<close>
  "search_rows rt query_vec [] = Inr []"
| "search_rows rt query_vec (row # rows) =
     (case cosine_similarity rt query_vec (row_embedding row) of
        Inl e \<Rightarrow> Inl e
      | Inr sim \<Rightarrow>
          (case search_rows rt query_vec rows of
             Inl e \<Rightarrow> Inl e
           | Inr results \<Rightarrow>
               Inr (\<lparr>sr_id = row_id row, sr_text = row_text row, similarity = sim,
                     sr_metadata = (case row_metadata row of None \<Rightarrow> [] | Some m \<Rightarrow> m)\<rparr>
                    # results)))"

definition search ::
  "py_runtime \<Rightarrow> embedding_row list \<Rightarrow> pyfloat list \<Rightarrow> int \<Rightarrow> error + search_result list" where
  "search rt db query_embedding top_k =
     (let query_vec = map (np_array32 rt) query_embedding
      in case search_rows rt query_vec db of
           Inl e \<Rightarrow> Inl e
         | Inr results \<Rightarrow> Inr (py_take top_k (sort_by_similarity rt results)))"

section \<open>Context manager (src/context/manager.py)\<close>

definition needs_examples :: "string \<Rightarrow> bool" where
  "needs_examples query =
     list_ex (\<lambda>keyword. py_in keyword (py_lower query)) [''example'', ''how to'', ''usage'']"

definition score_result :: "py_runtime \<Rightarrow> string \<Rightarrow> search_result \<Rightarrow> scored_result" where
  \<comment> \<open>The body of the scoring loop of \<open>_rank_and_filter\<close>.\<close>
  "score_result rt query result =
     (let score = similarity result;
          score' =
            (if needs_examples query \<and>
                map_of (sr_metadata result) ''type'' = Some (PStr ''code_example'')
             then f64_mul rt score (f64_literal rt 1.3) else score)
      in \<lparr>sr_id = sr_id result, sr_text = sr_text result, similarity = similarity result,
          sr_metadata = sr_metadata result, adjusted_score = score'\<rparr>)"

definition rank_and_filter ::
  "py_runtime \<Rightarrow> search_result list \<Rightarrow> string \<Rightarrow> scored_result list" where
  "rank_and_filter rt results query =
     sort_by_adjusted_score rt (map (score_result rt query) results)"

definition estimate_tokens :: "string \<Rightarrow> int" where
  "estimate_tokens text = int (length text) div 4"

fun collect_context :: "int \<Rightarrow> string list \<Rightarrow> int \<Rightarrow> scored_result list \<Rightarrow> string list" where
  \<comment> \<open>The budget loop: \<open>context_texts\<close> and \<open>total_tokens\<close> are the accumulators.\<close>
  "collect_context max_tokens context_texts total_tokens [] = context_texts"
| "collect_context max_tokens context_texts total_tokens (result # rest) =
     (let text = sr_text result; tokens = estimate_tokens text
      in if total_tokens + tokens \<le> max_tokens
         then collect_context max_tokens (context_texts @ [text]) (total_tokens + tokens) rest
         else context_texts)"

record context_manager =
  db :: "embedding_row list"
  embed_text :: "string \<Rightarrow> error + pyfloat list"
  max_tokens :: int

definition context_manager_init ::
  "settings \<Rightarrow> embedding_row list \<Rightarrow> (string \<Rightarrow> error + pyfloat list) \<Rightarrow> context_manager" where
  \<comment> \<open>\<open>__init__\<close>: the budget is the setting \<open>max_context_tokens\<close>; the store and the
      embedding service are the ones at hand.\<close>
  "context_manager_init cfg store embed_fn =
     \<lparr>db = store, embed_text = embed_fn, max_tokens = max_context_tokens cfg\<rparr>"

definition retrieve_relevant_context ::
  "py_runtime \<Rightarrow> settings \<Rightarrow> context_manager \<Rightarrow> string \<Rightarrow> string \<Rightarrow> int option
     \<Rightarrow> error + string list" where
  "retrieve_relevant_context rt cfg cm query lib_name top_k_arg =
     (let top_k = (case top_k_arg of None \<Rightarrow> top_k_results cfg | Some k \<Rightarrow> k);
          enhanced_query = lib_name @ '' '' @ query
      in case embed_text cm enhanced_query of
           Inl e \<Rightarrow> Inl e
         | Inr query_embedding \<Rightarrow>
             (case search rt (db cm) query_embedding (top_k * 2) of
                Inl e \<Rightarrow> Inl e
              | Inr results \<Rightarrow>
                  Inr (collect_context (max_tokens cm) [] 0
                         (py_take top_k (rank_and_filter rt results query)))))"

subsection \<open>Case-insensitive containment, as the specification words it\<close>

definition same_ignoring_case :: "char \<Rightarrow> char \<Rightarrow> bool" where
  \<comment> \<open>The two characters are equal, or one is a capital letter A-Z and the other is the
      small letter of it.\<close>
  "same_ignoring_case a b =
     (let m = (of_char a :: nat); n = (of_char b :: nat)
      in a = b \<or> (65 \<le> m \<and> m \<le> 90 \<and> n = m + 32) \<or> (65 \<le> n \<and> n \<le> 90 \<and> m = n + 32))"

definition contains_ignoring_case :: "string \<Rightarrow> string \<Rightarrow> bool" where
  \<comment> \<open>\<open>keyword\<close> occurs in \<open>s\<close> when the case of the letters is ignored.\<close>
  "contains_ignoring_case keyword s =
     list_ex (\<lambda>t. length keyword \<le> length t \<and>
                  list_all2 same_ignoring_case (take (length keyword) t) keyword)
       (suffixes s)"

subsection \<open>Two runtimes\<close>

text \<open>
  \<open>exact_runtime\<close> computes without rounding. \<open>ieee_runtime\<close> rounds every result to the
  nearest \<open>float32\<close> (24 significant bits, exponents from -126 to 127) or Python float (53
  bits, exponents from -1022 to 1023), ties to even, with overflow to an infinity. Its
  dot product accumulates from the left; numpy may add in another order, which for the
  vectors of two components in the examples below gives the same value. Both sort by
  \<open>stable_sort_desc\<close>, as \<open>list.sort\<close> does when no key is NaN; on the list of three
  keys 0, NaN, 1 of the examples below both leave the list as it is, since no comparison
  with NaN holds.
\<close>

definition round_half_even :: "real \<Rightarrow> int" where
  "round_half_even x =
     (let f = \<lfloor>x\<rfloor>; d = x - of_int f
      in if d < 1 / 2 then f else if d > 1 / 2 then f + 1
         else if even f then f else f + 1)"

definition round_ieee :: "nat \<Rightarrow> int \<Rightarrow> int \<Rightarrow> real \<Rightarrow> pyfloat" where
  \<comment> \<open>Rounding to \<open>p\<close> significant bits with exponents from \<open>emin\<close> to \<open>emax\<close>.\<close>
  "round_ieee p emin emax x =
     (if x = 0 then Num 0
      else
        (let e = max \<lfloor>log 2 \<bar>x\<bar>\<rfloor> emin;
             ulp = 2 powr (of_int e - (of_nat p - 1));
             r = of_int (round_half_even (x / ulp)) * ulp
         in if 2 powr (of_int emax + 1) \<le> \<bar>r\<bar>
            then (if 0 < x then PosInf else NegInf)
            else Num r))"

definition float32 :: "real \<Rightarrow> pyfloat" where
  "float32 = round_ieee 24 (- 126) 127"

definition float64 :: "real \<Rightarrow> pyfloat" where
  "float64 = round_ieee 53 (- 1022) 1023"

definition fl_negative :: "pyfloat \<Rightarrow> bool" where
  "fl_negative x = fl_lt x (Num 0)"

definition fl_add :: "(real \<Rightarrow> pyfloat) \<Rightarrow> pyfloat \<Rightarrow> pyfloat \<Rightarrow> pyfloat" where
  "fl_add rnd x y =
     (case (x, y) of
        (Num a, Num b) \<Rightarrow> rnd (a + b)
      | _ \<Rightarrow>
          if x = NaN \<or> y = NaN \<or> (x = PosInf \<and> y = NegInf) \<or> (x = NegInf \<and> y = PosInf)
          then NaN
          else if x = PosInf \<or> y = PosInf then PosInf else NegInf)"

definition fl_mul :: "(real \<Rightarrow> pyfloat) \<Rightarrow> pyfloat \<Rightarrow> pyfloat \<Rightarrow> pyfloat" where
  "fl_mul rnd x y =
     (case (x, y) of
        (Num a, Num b) \<Rightarrow> rnd (a * b)
      | _ \<Rightarrow>
          if x = NaN \<or> y = NaN \<or> x = Num 0 \<or> y = Num 0 then NaN
          else if fl_negative x = fl_negative y then PosInf else NegInf)"

definition fl_div :: "(real \<Rightarrow> pyfloat) \<Rightarrow> pyfloat \<Rightarrow> pyfloat \<Rightarrow> pyfloat" where
  "fl_div rnd x y =
     (case (x, y) of
        (Num a, Num b) \<Rightarrow>
          if b = 0 then (if a = 0 then NaN else if a < 0 then NegInf else PosInf)
          else rnd (a / b)
      | (Num a, PosInf) \<Rightarrow> Num 0
      | (Num a, NegInf) \<Rightarrow> Num 0
      | (PosInf, Num b) \<Rightarrow> if b < 0 then NegInf else PosInf
      | (NegInf, Num b) \<Rightarrow> if b < 0 then PosInf else NegInf
      | _ \<Rightarrow> NaN)"

definition fl_sqrt :: "(real \<Rightarrow> pyfloat) \<Rightarrow> pyfloat \<Rightarrow> pyfloat" where
  "fl_sqrt rnd x =
     (case x of
        Num a \<Rightarrow> if a < 0 then NaN else rnd (sqrt a)
      | PosInf \<Rightarrow> PosInf
      | _ \<Rightarrow> NaN)"

definition fl_dot :: "(real \<Rightarrow> pyfloat) \<Rightarrow> pyfloat list \<Rightarrow> pyfloat list \<Rightarrow> pyfloat" where
  "fl_dot rnd v1 v2 =
     foldl (\<lambda>acc (x, y). fl_add rnd acc (fl_mul rnd x y)) (Num 0) (zip v1 v2)"

definition float_runtime :: "(real \<Rightarrow> pyfloat) \<Rightarrow> (real \<Rightarrow> pyfloat) \<Rightarrow> py_runtime" where
  "float_runtime r32 r64 =
     \<lparr>np_array32 = (\<lambda>x. case x of Num a \<Rightarrow> r32 a | _ \<Rightarrow> x),
      np_dot32 = fl_dot r32,
      np_norm32 = (\<lambda>v. fl_sqrt r32 (fl_dot r32 v v)),
      f32_mul = fl_mul r32,
      f32_div = fl_div r32,
      f64_mul = fl_mul r64,
      f64_literal = r64,
      sort_by_similarity = stable_sort_desc similarity,
      sort_by_adjusted_score = stable_sort_desc adjusted_score\<rparr>"

definition exact_runtime :: py_runtime where
  "exact_runtime = float_runtime Num Num"

definition ieee_runtime :: py_runtime where
  "ieee_runtime = float_runtime float32 float64"

subsection \<open>Example stores\<close>

definition example_store :: "embedding_row list" where
  \<comment> \<open>A store of three rows, for concrete searches.\<close>
  "example_store =
     [\<lparr>row_id = 1, row_text = ''aaaaaaaa'', row_embedding = [Num 0, Num 1],
       row_metadata = Some [(''source'', PStr ''https://example.com''), (''type'', PStr ''documentation'')]\<rparr>,
      \<lparr>row_id = 2, row_text = ''bbbbbbbb'', row_embedding = [Num 1, Num 0],
       row_metadata = Some [(''source'', PStr ''github_readme''), (''type'', PStr ''readme'')]\<rparr>,
      \<lparr>row_id = 3, row_text = ''cc'', row_embedding = [Num 0, Num 0],
       row_metadata = Some [(''source'', PStr ''example_0''), (''type'', PStr ''code_example'')]\<rparr>]"

definition identical_store :: "embedding_row list" where
  \<comment> \<open>One stored vector, \<open>[1, 1]\<close>.\<close>
  "identical_store =
     [\<lparr>row_id = 1, row_text = ''a'', row_embedding = [Num 1, Num 1], row_metadata = None\<rparr>]"

definition overflow_store :: "embedding_row list" where
  \<comment> \<open>Three stored vectors; the square of \<open>2^100\<close> is beyond the range of \<open>float32\<close>.\<close>
  "overflow_store =
     [\<lparr>row_id = 1, row_text = ''a'', row_embedding = [Num 0, Num 1], row_metadata = None\<rparr>,
      \<lparr>row_id = 2, row_text = ''b'', row_embedding = [Num (2 ^ 100), Num 0], row_metadata = None\<rparr>,
      \<lparr>row_id = 3, row_text = ''c'', row_embedding = [Num 1, Num 0], row_metadata = None\<rparr>]"

definition nan_candidates :: "search_result list" where
  \<comment> \<open>Three candidates, the second with the similarity NaN: what \<open>search\<close> returns for
      \<open>overflow_store\<close> and the query \<open>[2^30, 0]\<close> in \<open>float32\<close>.\<close>
  "nan_candidates =
     [\<lparr>sr_id = 1, sr_text = ''a'', similarity = Num 0, sr_metadata = []\<rparr>,
      \<lparr>sr_id = 2, sr_text = ''b'', similarity = NaN, sr_metadata = []\<rparr>,
      \<lparr>sr_id = 3, sr_text = ''c'', similarity = Num 1, sr_metadata = []\<rparr>]"

definition example_cm :: context_manager where
  "example_cm = context_manager_init (default_settings\<lparr>max_context_tokens := 3\<rparr>) example_store
                  (\<lambda>text. Inr [Num 1, Num 0])"

section \<open>Chunker (src/context/chunker.py)\<close>

record semantic_chunker =
  chunk_size :: int
  chunk_overlap :: int

definition make_chunker :: "settings \<Rightarrow> int option \<Rightarrow> int option \<Rightarrow> semantic_chunker" where
  \<comment> \<open>\<open>__init__\<close>: an argument that is \<open>None\<close> or 0 is replaced by the setting.\<close>
  "make_chunker cfg size_arg overlap_arg =
     \<lparr>chunk_size =
        (case size_arg of None \<Rightarrow> settings.chunk_size cfg
         | Some n \<Rightarrow> if n = 0 then settings.chunk_size cfg else n),
      chunk_overlap =
        (case overlap_arg of None \<Rightarrow> settings.chunk_overlap cfg
         | Some n \<Rightarrow> if n = 0 then settings.chunk_overlap cfg else n)\<rparr>"

definition newline :: char where
  "newline = CHR 0x0A"

function split_paragraphs :: "string \<Rightarrow> string list" where
  \<comment> \<open>\<open>re.split(r'\n\n+', text)\<close>: a separator is a maximal run of two or more newlines.\<close>
  "split_paragraphs [] = [[]]"
| "split_paragraphs (c # cs) =
     (if c = newline \<and> cs \<noteq> [] \<and> hd cs = newline
      then [] # split_paragraphs (dropWhile (\<lambda>x. x = newline) cs)
      else (case split_paragraphs cs of
              [] \<Rightarrow> [[c]]
            | p # ps \<Rightarrow> (c # p) # ps))"
  by pat_completeness auto
termination
  by (relation "measure length") (auto simp: le_imp_less_Suc length_dropWhile_le)

fun semantic_loop ::
  "semantic_chunker \<Rightarrow> string list \<Rightarrow> string list \<Rightarrow> int \<Rightarrow> string list \<Rightarrow> string list" where
  \<comment> \<open>The loop of \<open>_split_by_semantic_boundaries\<close> over the paragraphs and the final
      flush; \<open>chunks\<close>, \<open>current_chunk\<close> and \<open>current_length\<close> are the accumulators.\<close>
  "semantic_loop ch chunks current_chunk current_length [] =
     (if current_chunk \<noteq> [] then chunks @ [py_join ''\<newline>\<newline>'' current_chunk] else chunks)"
| "semantic_loop ch chunks current_chunk current_length (p # paragraphs) =
     (let para = py_strip p
      in if para = [] then semantic_loop ch chunks current_chunk current_length paragraphs
         else
           (let para_length = int (length para)
            in if current_length + para_length > chunk_size ch \<and> current_chunk \<noteq> []
               then
                 (let chunks' = chunks @ [py_join ''\<newline>\<newline>'' current_chunk]
                  in if chunk_overlap ch > 0 \<and> length current_chunk > 1
                     then
                       (let overlap_text = last current_chunk
                        in semantic_loop ch chunks' [overlap_text, para]
                             (int (length overlap_text) + para_length) paragraphs)
                     else semantic_loop ch chunks' [para] para_length paragraphs)
               else semantic_loop ch chunks (current_chunk @ [para])
                      (current_length + para_length) paragraphs))"

definition split_by_semantic_boundaries :: "semantic_chunker \<Rightarrow> string \<Rightarrow> string list" where
  "split_by_semantic_boundaries ch text = semantic_loop ch [] [] 0 (split_paragraphs text)"

definition py_rfind :: "char \<Rightarrow> string \<Rightarrow> int \<Rightarrow> int \<Rightarrow> int" where
  \<comment> \<open>\<open>text.rfind(c, start, end)\<close>: the highest index of \<open>c\<close> inside the slice, or -1.\<close>
  "py_rfind c text start end =
     (let n = int (length text); a = py_norm n start; b = py_norm n end
      in case filter (\<lambda>i. text ! i = c) (rev [a..<b]) of
           [] \<Rightarrow> -1
         | i # _ \<Rightarrow> int i)"

definition window_end :: "semantic_chunker \<Rightarrow> string \<Rightarrow> int \<Rightarrow> int" where
  \<comment> \<open>The value of \<open>end\<close> when the chunk is cut: the window's end, moved back to just
      after the last sentence ending inside the window when there is one after \<open>start\<close>.\<close>
  "window_end ch text start =
     (let text_length = int (length text); end = start + chunk_size ch
      in if end < text_length
         then
           (let sentence_end =
                  max (max (py_rfind (CHR ''.'') text start end)
                           (py_rfind (CHR ''!'') text start end))
                      (py_rfind (CHR ''?'') text start end)
            in if sentence_end > start then sentence_end + 1 else end)
         else end)"

definition next_start :: "semantic_chunker \<Rightarrow> string \<Rightarrow> int \<Rightarrow> int" where
  \<comment> \<open>\<open>start = end - self.chunk_overlap if end < text_length else end\<close>\<close>
  "next_start ch text end =
     (if end < int (length text) then end - chunk_overlap ch else end)"

fun split_loop ::
  "nat \<Rightarrow> semantic_chunker \<Rightarrow> string \<Rightarrow> int \<Rightarrow> string list \<Rightarrow> string list option" where
  \<comment> \<open>The \<open>while\<close> loop of \<open>_split_by_size\<close>. The first argument bounds the number of
      iterations; \<open>None\<close> says that the loop is still running when the bound is used up.\<close>
  "split_loop 0 ch text start chunks =
     (if start < int (length text) then None else Some chunks)"
| "split_loop (Suc fuel) ch text start chunks =
     (if start < int (length text)
      then
        (let end = window_end ch text start;
             chunk = py_strip (py_slice text start end);
             chunks' = (if chunk \<noteq> [] then chunks @ [chunk] else chunks)
         in split_loop fuel ch text (next_start ch text end) chunks')
      else Some chunks)"

definition split_by_size :: "nat \<Rightarrow> semantic_chunker \<Rightarrow> string \<Rightarrow> string list option" where
  "split_by_size fuel ch text = split_loop fuel ch text 0 []"

fun chunk_text_loop ::
  "nat \<Rightarrow> semantic_chunker \<Rightarrow> string list \<Rightarrow> string list \<Rightarrow> string list option" where
  "chunk_text_loop fuel ch final_chunks [] = Some final_chunks"
| "chunk_text_loop fuel ch final_chunks (chunk # chunks) =
     (if int (length chunk) > chunk_size ch
      then
        (case split_by_size fuel ch chunk of
           None \<Rightarrow> None
         | Some pieces \<Rightarrow> chunk_text_loop fuel ch (final_chunks @ pieces) chunks)
      else chunk_text_loop fuel ch (final_chunks @ [chunk]) chunks)"

definition chunk_text :: "nat \<Rightarrow> semantic_chunker \<Rightarrow> string \<Rightarrow> string list option" where
  \<comment> \<open>\<open>chunk_text\<close>, with the iteration bound handed to every call of \<open>_split_by_size\<close>.\<close>
  "chunk_text fuel ch text = chunk_text_loop fuel ch [] (split_by_semantic_boundaries ch text)"





definition has_text :: "string \<Rightarrow> bool" where
  \<comment> \<open>The string has a character that is not white space.\<close>
  "has_text s = list_ex (\<lambda>c. \<not> py_isspace c) s"

definition solid :: "string \<Rightarrow> bool" where
  \<comment> \<open>The string is not empty and does not begin with white space.\<close>
  "solid s = (case s of [] \<Rightarrow> False | c # _ \<Rightarrow> \<not> py_isspace c)"

definition sentence_text :: string where
  \<comment> \<open>A text of 26 characters whose only sentence ending is at index 5.\<close>
  "sentence_text = ''aaaaa.bbbbbbbbbbbbbbbbbbbb''"

definition looping_chunker :: semantic_chunker where
  "looping_chunker = \<lparr>chunk_size = 10, chunk_overlap = 5\<rparr>"

definition narrow_chunker :: semantic_chunker where
  "narrow_chunker = \<lparr>chunk_size = 10, chunk_overlap = 1\<rparr>"

definition test_chunker :: semantic_chunker where
  \<comment> \<open>The chunker of \<open>test_semantic_chunking\<close>.\<close>
  "test_chunker = \<lparr>chunk_size = 100, chunk_overlap = 20\<rparr>"


section \<open>Properties of the workflow\<close>

subsection \<open>Routing\<close>

text \<open>
  What \<open>should_continue\<close> computes: the cap is the literal 10 of the source, which is the
  default of the setting \<open>max_iterations\<close>; the function has no access to the settings.
\<close>

lemma should_continue_literal_cap:
  "should_continue s =
     (if (case iteration_count s of None \<Rightarrow> 0 | Some n \<Rightarrow> n) \<ge> 10 then ''end''
      else (case next_action s of None \<Rightarrow> ''end'' | Some a \<Rightarrow> a))"
  by (simp add: should_continue_def Let_def)


text \<open>
  C1. The claim: \<open>should_continue\<close> returns "end" whenever \<open>iteration_count\<close> is at
  least the configured \<open>max_iterations\<close>. With \<open>max_iterations\<close> configured as 0, the state
  that \<open>analyze_query\<close> hands to the router in every run has \<open>iteration_count = 0\<close>, which
  reaches the configured cap, and \<open>should_continue\<close> still answers
  "search_documentation".
\<close>

theorem should_continue_ignores_max_iterations:
  "max_iterations (default_settings\<lparr>max_iterations := 0\<rparr>)
     \<le> (case iteration_count
               ((initial_state ''requests'' ''Make a GET request'')
                  \<lparr>next_action := Some ''search_documentation''\<rparr>) of
           None \<Rightarrow> 0 | Some n \<Rightarrow> n)
   \<and> should_continue
       ((initial_state ''requests'' ''Make a GET request'')
          \<lparr>next_action := Some ''search_documentation''\<rparr>) = ''search_documentation''"
  by (simp add: should_continue_def initial_state_def default_settings_def)


subsection \<open>Validation\<close>

lemma py_in_iff: "py_in sub s \<longleftrightarrow> (\<exists>p q. s = p @ sub @ q)"
proof (induction s)
  case Nil
  then show ?case by auto
next
  case (Cons c cs)
  show ?case
  proof
    assume "py_in sub (c # cs)"
    then consider "prefix sub (c # cs)" | "py_in sub cs" by auto
    then show "\<exists>p q. c # cs = p @ sub @ q"
    proof cases
      case 1
      then obtain q where "c # cs = sub @ q" by (auto simp: prefix_def)
      then have "c # cs = [] @ sub @ q" by simp
      then show ?thesis by blast
    next
      case 2
      with Cons.IH obtain p q where "cs = p @ sub @ q" by auto
      then have "c # cs = (c # p) @ sub @ q" by simp
      then show ?thesis by blast
    qed
  next
    assume "\<exists>p q. c # cs = p @ sub @ q"
    then obtain p q where pq: "c # cs = p @ sub @ q" by auto
    show "py_in sub (c # cs)"
    proof (cases p)
      case Nil
      with pq have "prefix sub (c # cs)" by (simp add: prefix_def)
      then show ?thesis by simp
    next
      case (Cons a p')
      with pq have "cs = p' @ sub @ q" by simp
      with Cons.IH have "py_in sub cs" by blast
      then show ?thesis by simp
    qed
  qed
qed


text \<open>
  C7. \<open>validate_code\<close> sets \<open>confidence_score\<close> to 0.8 when the lower-cased generated
  code (the empty string when the key is absent) contains the lower-cased library name as
  a contiguous substring, leaving \<open>error_message\<close> alone; otherwise it sets the score to 0.3
  and records the error message. In both cases \<open>next_action\<close> becomes "end".
\<close>

theorem validate_code_confidence:
  "((\<exists>p q. py_lower (case generated_code s of None \<Rightarrow> [] | Some c \<Rightarrow> c)
            = p @ py_lower (library_name s) @ q) \<longrightarrow>
      confidence_score (validate_code s) = 0.8 \<and>
      error_message (validate_code s) = error_message s) \<and>
   (\<not> (\<exists>p q. py_lower (case generated_code s of None \<Rightarrow> [] | Some c \<Rightarrow> c)
            = p @ py_lower (library_name s) @ q) \<longrightarrow>
      confidence_score (validate_code s) = 0.3 \<and>
      error_message (validate_code s) =
        Some ''Generated code may not use the specified library'') \<and>
   next_action (validate_code s) = Some ''end''"
  unfolding validate_code_def Let_def py_in_iff by simp

theorem validate_code_confidence_witness:
  "confidence_score
     (validate_code ((initial_state ''requests'' ''get'')\<lparr>generated_code := Some ''import Requests''\<rparr>))
     = 0.8 \<and>
   confidence_score
     (validate_code ((initial_state ''requests'' ''get'')\<lparr>generated_code := Some ''print(1)''\<rparr>))
     = 0.3 \<and>
   error_message
     (validate_code ((initial_state ''requests'' ''get'')\<lparr>generated_code := Some ''print(1)''\<rparr>))
     = Some ''Generated code may not use the specified library''"
proof -
  have l1: "py_lower ''import Requests'' = ''import requests''" by code_simp
  have l2: "py_lower ''requests'' = ''requests''" by code_simp
  have yes: "\<exists>p q. py_lower ''import Requests'' = p @ py_lower ''requests'' @ q"
    by (rule exI [of _ "''import ''"], rule exI [of _ "[]"]) (simp add: l1 l2)
  have "\<not> py_in (py_lower ''requests'') (py_lower ''print(1)'')"
    by code_simp
  then have no: "\<not> (\<exists>p q. py_lower ''print(1)'' = p @ py_lower ''requests'' @ q)"
    unfolding py_in_iff .
  show ?thesis
    using yes no
      validate_code_confidence
        [of "(initial_state ''requests'' ''get'')\<lparr>generated_code := Some ''import Requests''\<rparr>"]
      validate_code_confidence
        [of "(initial_state ''requests'' ''get'')\<lparr>generated_code := Some ''print(1)''\<rparr>"]
    by (simp add: initial_state_def)
qed

subsection \<open>Crawling without a usable URL\<close>

text \<open>
  C8. When the state has no search results (the key is absent or the list is empty), or
  the first search result has no usable URL (no key "url", or a value that is false in
  a condition), \<open>crawl_documentation\<close> returns normally, for every collaborator and in
  every world: the returned state is the input state with only \<open>next_action\<close> changed to
  "analyze_github" (so \<open>crawled_documentation\<close> is not set), and the world is the one
  it started in (no collaborator was called). Below the iteration cap the router then
  moves on to \<open>analyze_github\<close>.
\<close>

theorem crawl_documentation_degrades:
  assumes "search_results s = None \<or> search_results s = Some [] \<or>
           (\<exists>r rs. search_results s = Some (r # rs) \<and>
              (case map_of r ''url'' of None \<Rightarrow> True | Some v \<Rightarrow> \<not> truthy v))"
  shows "crawl_documentation env s w = (Inr (s\<lparr>next_action := Some ''analyze_github''\<rparr>), w) \<and>
         ((case iteration_count s of None \<Rightarrow> 0 | Some n \<Rightarrow> n) < 10 \<longrightarrow>
            next_node CrawlDocumentation (s\<lparr>next_action := Some ''analyze_github''\<rparr>)
              = Inr (Some AnalyzeGithub))"
proof
  show "crawl_documentation env s w = (Inr (s\<lparr>next_action := Some ''analyze_github''\<rparr>), w)"
    using assms
  proof (elim disjE exE conjE)
    assume "search_results s = None"
    then show ?thesis by (simp add: crawl_documentation_def)
  next
    assume "search_results s = Some []"
    then show ?thesis by (simp add: crawl_documentation_def)
  next
    fix r rs
    assume "search_results s = Some (r # rs)"
      and "case map_of r ''url'' of None \<Rightarrow> True | Some v \<Rightarrow> \<not> truthy v"
    then show ?thesis by (simp add: crawl_documentation_def split: option.splits)
  qed
next
  show "(case iteration_count s of None \<Rightarrow> 0 | Some n \<Rightarrow> n) < 10 \<longrightarrow>
            next_node CrawlDocumentation (s\<lparr>next_action := Some ''analyze_github''\<rparr>)
              = Inr (Some AnalyzeGithub)"
    by (simp add: next_node_def should_continue_def)
qed

theorem crawl_documentation_degrades_witness:
  "crawl_documentation example_env
     ((initial_state ''requests'' ''get'')\<lparr>search_results := Some [[(''content'', PStr ''docs'')]]\<rparr>) ()
     = (Inr ((initial_state ''requests'' ''get'')
               \<lparr>search_results := Some [[(''content'', PStr ''docs'')]],
                next_action := Some ''analyze_github''\<rparr>), ()) \<and>
   next_node CrawlDocumentation
     ((initial_state ''requests'' ''get'')
        \<lparr>search_results := Some [[(''content'', PStr ''docs'')]],
         next_action := Some ''analyze_github''\<rparr>)
     = Inr (Some AnalyzeGithub)"
  using crawl_documentation_degrades
    [of "(initial_state ''requests'' ''get'')\<lparr>search_results := Some [[(''content'', PStr ''docs'')]]\<rparr>"
        example_env "()"]
  by (simp add: initial_state_def)

subsection \<open>The iteration counter\<close>

lemma node_fn_iteration_count:
  "node_fn nd env s w = (Inr s', w') \<Longrightarrow> iteration_count s' = iteration_count s"
  by (cases nd)
     (auto simp: analyze_query_def search_documentation_def crawl_documentation_def
                 analyze_github_def extract_examples_def manage_context_def
                 generate_code_def validate_code_def Let_def
           split: prod.splits sum.splits option.splits list.splits if_splits)

lemma run_graph_iteration_count:
  "run_graph n env nd s w = (Inr s', w') \<Longrightarrow> iteration_count s' = iteration_count s"
proof (induction n arbitrary: nd s w)
  case 0
  then show ?case by simp
next
  case (Suc n)
  from Suc.prems obtain s1 w1 where nf: "node_fn nd env s w = (Inr s1, w1)"
    by (auto split: prod.splits sum.splits)
  then have eq1: "iteration_count s1 = iteration_count s" by (rule node_fn_iteration_count)
  show ?case
  proof (cases "next_node nd s1")
    case (Inl e)
    with Suc.prems nf show ?thesis by simp
  next
    case (Inr tgt)
    show ?thesis
    proof (cases tgt)
      case None
      with Suc.prems nf Inr eq1 show ?thesis by simp
    next
      case (Some nd')
      with Suc.prems nf Inr have "run_graph n env nd' s1 w1 = (Inr s', w')" by simp
      then have "iteration_count s' = iteration_count s1" by (rule Suc.IH)
      with eq1 show ?thesis by simp
    qed
  qed
qed

lemma graph_reaches_iteration_count:
  "graph_reaches env lib tsk w0 nd s w \<Longrightarrow> iteration_count s = Some 0"
proof (induction rule: graph_reaches.induct)
  case start
  then show ?case by (simp add: initial_state_def)
next
  case (step nd s w s' w' nd')
  then show ?case using node_fn_iteration_count by metis
qed


text \<open>
  C9. No stage changes \<open>iteration_count\<close>: the state a stage returns has the counter of
  the state it was given. So the counter never decreases during a run; every state the
  graph reaches from the initial state has the counter 0, and so has the state that a
  completed run returns.
\<close>

theorem iteration_count_frame:
  "(\<forall>s' w'. node_fn nd env s w = (Inr s', w') \<longrightarrow> iteration_count s' = iteration_count s) \<and>
   (graph_reaches env lib tsk w0 nd s w \<longrightarrow> iteration_count s = Some 0) \<and>
   (\<forall>s' w'. agent_run limit env lib tsk w0 = (Inr s', w') \<longrightarrow> iteration_count s' = Some 0)"
proof (intro conjI allI impI)
  fix s' w' assume "node_fn nd env s w = (Inr s', w')"
  then show "iteration_count s' = iteration_count s" by (rule node_fn_iteration_count)
next
  assume "graph_reaches env lib tsk w0 nd s w"
  then show "iteration_count s = Some 0" by (rule graph_reaches_iteration_count)
next
  fix s' w' assume "agent_run limit env lib tsk w0 = (Inr s', w')"
  then have "iteration_count s' = iteration_count (initial_state lib tsk)"
    unfolding agent_run_def by (rule run_graph_iteration_count)
  then show "iteration_count s' = Some 0" by (simp add: initial_state_def)
qed

lemma example_run: "\<exists>s'. agent_run 8 example_env ''requests'' ''get'' () = (Inr s', ())"
  by (simp add: agent_run_def eval_nat_numeral example_env_def initial_state_def
      analyze_query_def search_documentation_def crawl_documentation_def
                 analyze_github_def extract_examples_def manage_context_def
                 generate_code_def validate_code_def next_node_def should_continue_def)

theorem iteration_count_frame_witness:
  "(\<exists>s'. node_fn AnalyzeQuery example_env (initial_state ''requests'' ''get'') () = (Inr s', ())
        \<and> iteration_count s' = Some 0) \<and>
   graph_reaches example_env ''requests'' ''get'' () AnalyzeQuery
     (initial_state ''requests'' ''get'') () \<and>
   iteration_count (initial_state ''requests'' ''get'') = Some 0 \<and>
   (\<exists>s'. agent_run 8 example_env ''requests'' ''get'' () = (Inr s', ())
        \<and> iteration_count s' = Some 0)"
proof -
  note frame =
    iteration_count_frame
      [of AnalyzeQuery example_env "initial_state ''requests'' ''get''" "()"
          "''requests''" "''get''" "()" 8]
  have reach: "graph_reaches example_env ''requests'' ''get'' () AnalyzeQuery
     (initial_state ''requests'' ''get'') ()"
    by (rule graph_reaches.start)
  have "\<exists>s'. node_fn AnalyzeQuery example_env (initial_state ''requests'' ''get'') ()
               = (Inr s', ())"
    by (simp add: analyze_query_def example_env_def)
  with frame reach example_run show ?thesis
    by (metis (no_types, lifting))
qed

section \<open>Properties of the vector store\<close>

subsection \<open>Comparisons and sorting\<close>

lemma fl_lt_imp_le: "fl_lt x y \<Longrightarrow> fl_le x y"
  by (cases x; cases y) simp_all

lemma not_fl_lt_imp_le: "x \<noteq> NaN \<Longrightarrow> y \<noteq> NaN \<Longrightarrow> \<not> fl_lt x y \<Longrightarrow> fl_le y x"
  by (cases x; cases y) simp_all

lemma fl_le_trans: "fl_le x y \<Longrightarrow> fl_le y z \<Longrightarrow> fl_le x z"
  by (cases x; cases y; cases z) simp_all

lemma fl_le_NaN: "\<not> fl_le NaN x" "\<not> fl_le x NaN"
  by (cases x; simp)+

lemma mset_insert_desc: "mset (insert_desc key x ys) = add_mset x (mset ys)"
  by (induction ys) simp_all

lemma set_insert_desc: "set (insert_desc key x ys) = insert x (set ys)"
  by (induction ys) auto

lemma mset_stable_sort_desc: "mset (stable_sort_desc key xs) = mset xs"
  by (induction xs) (simp_all add: stable_sort_desc_def mset_insert_desc)

lemma sorted_insert_desc:
  assumes "key x \<noteq> NaN" and "\<forall>y \<in> set ys. key y \<noteq> NaN"
    and "sorted_wrt (\<lambda>a b. fl_le (key b) (key a)) ys"
  shows "sorted_wrt (\<lambda>a b. fl_le (key b) (key a)) (insert_desc key x ys)"
  using assms(2,3)
proof (induction ys)
  case Nil
  then show ?case by simp
next
  case (Cons y ys)
  show ?case
  proof (cases "fl_lt (key x) (key y)")
    case True
    then have "fl_le (key x) (key y)" by (rule fl_lt_imp_le)
    with True Cons show ?thesis by (auto simp: set_insert_desc)
  next
    case False
    have yx: "fl_le (key y) (key x)"
      using assms(1) Cons.prems(1) False by (intro not_fl_lt_imp_le) simp_all
    have "fl_le (key z) (key x)" if "z \<in> set ys" for z
    proof -
      from that Cons.prems(2) have "fl_le (key z) (key y)" by simp
      then show ?thesis using yx by (rule fl_le_trans)
    qed
    with False yx Cons.prems(2) show ?thesis by simp
  qed
qed

lemma sorted_stable_sort_desc:
  "\<forall>x \<in> set xs. key x \<noteq> NaN \<Longrightarrow>
     sorted_wrt (\<lambda>a b. fl_le (key b) (key a)) (stable_sort_desc key xs)"
proof (induction xs)
  case Nil
  then show ?case by (simp add: stable_sort_desc_def)
next
  case (Cons x xs)
  have "\<forall>y \<in> set (stable_sort_desc key xs). key y \<noteq> NaN"
    using Cons.prems mset_stable_sort_desc [of key xs] by (metis list.set_intros(2) set_mset_mset)
  with Cons show ?case
    using sorted_insert_desc [of key x "stable_sort_desc key xs"]
    by (simp add: stable_sort_desc_def)
qed

lemma python_sort_stable: "python_sort key (stable_sort_desc key)"
  by (simp add: python_sort_def mset_stable_sort_desc)

lemma python_sort_set: "python_sort key srt \<Longrightarrow> set (srt xs) = set xs"
  by (metis python_sort_def set_mset_mset)

lemma python_sort_sorted:
  assumes "python_sort key srt" and "\<forall>x \<in> set xs. key x \<noteq> NaN"
  shows "sorted_wrt (\<lambda>a b. fl_le (key b) (key a)) (srt xs)"
proof -
  from assms have "srt xs = stable_sort_desc key xs" by (simp add: python_sort_def)
  with assms(2) show ?thesis by (simp add: sorted_stable_sort_desc)
qed

lemma length_py_take: "0 \<le> k \<Longrightarrow> int (length (py_take k xs)) \<le> k"
  by (simp add: py_take_def py_norm_def)

lemma set_py_take: "set (py_take k xs) \<subseteq> set xs"
  by (simp add: py_take_def set_take_subset)

lemma sorted_wrt_py_take: "sorted_wrt P xs \<Longrightarrow> sorted_wrt P (py_take k xs)"
  by (simp add: py_take_def sorted_wrt_take)

subsection \<open>The rows of a search\<close>

lemma cosine_similarity_length:
  "cosine_similarity rt vec1 vec2 = Inr c \<Longrightarrow> length vec1 = length vec2"
  by (auto simp: cosine_similarity_def np_dot_def split: if_splits)

lemma cosine_similarity_zero_norm:
  "cosine_similarity rt vec1 vec2 = Inr c \<Longrightarrow>
     np_norm32 rt vec1 = Num 0 \<or> np_norm32 rt vec2 = Num 0 \<Longrightarrow> c = Num 0"
  by (auto simp: cosine_similarity_def Let_def split: sum.splits)

lemma search_rows_total:
  "(\<forall>row \<in> set rows. length (row_embedding row) = length q) \<Longrightarrow>
     \<exists>rs. search_rows rt q rows = Inr rs"
  by (induction rows) (auto simp: cosine_similarity_def np_dot_def Let_def)

lemma search_rows_sound:
  "search_rows rt q rows = Inr rs \<Longrightarrow>
     length rs = length rows \<and>
     (\<forall>r \<in> set rs. \<exists>row \<in> set rows.
        sr_id r = row_id row \<and> sr_text r = row_text row \<and>
        cosine_similarity rt q (row_embedding row) = Inr (similarity r))"
proof (induction rows arbitrary: rs)
  case Nil
  then show ?case by simp
next
  case (Cons row rows)
  from Cons.prems obtain sim rs' where
    sim: "cosine_similarity rt q (row_embedding row) = Inr sim" and
    rs': "search_rows rt q rows = Inr rs'" and
    rs: "rs = \<lparr>sr_id = row_id row, sr_text = row_text row, similarity = sim,
                 sr_metadata = (case row_metadata row of None \<Rightarrow> [] | Some m \<Rightarrow> m)\<rparr> # rs'"
    by (auto split: sum.splits)
  from Cons.IH [OF rs'] sim show ?case
    unfolding rs by auto
qed

lemma search_rows_complete:
  "search_rows rt q rows = Inr rs \<Longrightarrow> row \<in> set rows \<Longrightarrow>
     \<exists>r \<in> set rs. cosine_similarity rt q (row_embedding row) = Inr (similarity r)"
proof (induction rows arbitrary: rs)
  case Nil
  then show ?case by simp
next
  case (Cons row' rows)
  from Cons.prems(1) obtain sim rs' where
    sim: "cosine_similarity rt q (row_embedding row') = Inr sim" and
    rs': "search_rows rt q rows = Inr rs'" and
    rs: "rs = \<lparr>sr_id = row_id row', sr_text = row_text row', similarity = sim,
                 sr_metadata = (case row_metadata row' of None \<Rightarrow> [] | Some m \<Rightarrow> m)\<rparr> # rs'"
    by (auto split: sum.splits)
  show ?case
  proof (cases "row = row'")
    case True
    with sim show ?thesis unfolding rs by simp
  next
    case False
    with Cons.prems(2) have "row \<in> set rows" by simp
    from Cons.IH [OF rs' this] show ?thesis unfolding rs by auto
  qed
qed

subsection \<open>Exact arithmetic\<close>

lemma cs_step:
  fixes A B C x y :: real
  assumes "C\<^sup>2 \<le> A * B" "0 \<le> A" "0 \<le> B"
  shows "(x * y + C)\<^sup>2 \<le> (x * x + A) * (y * y + B)"
proof -
  have "(2 * C * x * y)\<^sup>2 = 4 * C\<^sup>2 * (x\<^sup>2 * y\<^sup>2)" by (simp add: power2_eq_square)
  also have "\<dots> \<le> 4 * (A * B) * (x\<^sup>2 * y\<^sup>2)"
    using assms(1) by (intro mult_right_mono mult_left_mono) simp_all
  also have "\<dots> \<le> (A * y\<^sup>2 + B * x\<^sup>2)\<^sup>2"
  proof -
    have "0 \<le> (A * y\<^sup>2 - B * x\<^sup>2)\<^sup>2" by simp
    then show ?thesis by (simp add: power2_eq_square algebra_simps)
  qed
  finally have "(2 * C * x * y)\<^sup>2 \<le> (A * y\<^sup>2 + B * x\<^sup>2)\<^sup>2" .
  moreover have "0 \<le> A * y\<^sup>2 + B * x\<^sup>2" using assms(2,3) by simp
  ultimately have "2 * C * x * y \<le> A * y\<^sup>2 + B * x\<^sup>2"
    by (rule power2_le_imp_le)
  with assms(1) show ?thesis by (simp add: power2_eq_square algebra_simps)
qed

lemma sum_squares_nonneg: "0 \<le> sum_list (map (\<lambda>x. x * x) (v :: real list))"
  by (induction v) simp_all

lemma cauchy_schwarz_lists:
  "length xs = length ys \<Longrightarrow>
     (sum_list (map2 (*) xs ys))\<^sup>2
       \<le> sum_list (map (\<lambda>x. x * x) xs) * sum_list (map (\<lambda>x. x * x) (ys :: real list))"
proof (induction xs ys rule: list_induct2)
  case Nil
  then show ?case by simp
next
  case (Cons x xs y ys)
  then show ?case
    using cs_step [OF Cons.IH sum_squares_nonneg sum_squares_nonneg, of x y] by simp
qed

lemma fl_dot_exact_acc:
  "length xs = length ys \<Longrightarrow>
     foldl (\<lambda>acc (x, y). fl_add Num acc (fl_mul Num x y)) (Num a) (zip (map Num xs) (map Num ys))
       = Num (a + sum_list (map2 (*) xs ys))"
  by (induction xs ys arbitrary: a rule: list_induct2) (simp_all add: fl_add_def fl_mul_def)

lemma fl_dot_exact:
  "length xs = length ys \<Longrightarrow>
     fl_dot Num (map Num xs) (map Num ys) = Num (sum_list (map2 (*) xs ys))"
  using fl_dot_exact_acc [of xs ys 0] by (simp add: fl_dot_def)

lemma np_norm_exact:
  "np_norm32 exact_runtime (map Num xs) = Num (sqrt (sum_list (map (\<lambda>x. x * x) xs)))"
proof -
  have "sum_list (map2 (*) xs xs) = sum_list (map (\<lambda>x. x * x) xs)"
    by (induction xs) simp_all
  then show ?thesis
    using sum_squares_nonneg [of xs]
    by (simp add: exact_runtime_def float_runtime_def fl_dot_exact fl_sqrt_def)
qed

lemma cosine_similarity_exact_bounds:
  assumes "cosine_similarity exact_runtime (map Num xs) (map Num ys) = Inr c"
  shows "\<exists>r. c = Num r \<and> - 1 \<le> r \<and> r \<le> 1"
proof -
  from assms have "length (map Num xs) = length (map Num ys)" by (rule cosine_similarity_length)
  then have len: "length xs = length ys" by simp
  define n1 where "n1 = sqrt (sum_list (map (\<lambda>x. x * x) xs))"
  define n2 where "n2 = sqrt (sum_list (map (\<lambda>x. x * x) ys))"
  define C where "C = sum_list (map2 (*) xs ys)"
  have norm1: "np_norm32 exact_runtime (map Num xs) = Num n1"
    and norm2: "np_norm32 exact_runtime (map Num ys) = Num n2"
    by (simp_all add: np_norm_exact n1_def n2_def)
  have dot: "np_dot exact_runtime (map Num xs) (map Num ys) = Inr (Num C)"
    using len by (simp add: np_dot_def exact_runtime_def float_runtime_def fl_dot_exact C_def)
  have nonneg: "0 \<le> n1" "0 \<le> n2" by (simp_all add: n1_def n2_def sum_squares_nonneg)
  show ?thesis
  proof (cases "n1 = 0 \<or> n2 = 0")
    case True
    with assms have "c = Num 0"
      by (auto simp: cosine_similarity_def dot norm1 norm2 Let_def)
    then show ?thesis by simp
  next
    case False
    then have pos: "0 < n1" "0 < n2" using nonneg by simp_all
    have mul: "f32_mul exact_runtime (Num n1) (Num n2) = Num (n1 * n2)"
      by (simp add: exact_runtime_def float_runtime_def fl_mul_def)
    have quot: "f32_div exact_runtime (Num C) (Num (n1 * n2)) = Num (C / (n1 * n2))"
      using pos by (simp add: exact_runtime_def float_runtime_def fl_div_def)
    from assms False have c: "c = Num (C / (n1 * n2))"
      by (simp add: cosine_similarity_def dot norm1 norm2 Let_def mul quot)
    have "C\<^sup>2 \<le> (n1 * n2)\<^sup>2"
      using cauchy_schwarz_lists [OF len]
      by (simp add: C_def n1_def n2_def power_mult_distrib sum_squares_nonneg)
    then have "\<bar>C\<bar> \<le> n1 * n2"
      using pos by (simp add: abs_le_square_iff [symmetric] abs_mult)
    then have "\<bar>C / (n1 * n2)\<bar> \<le> 1" using pos by simp
    then have "- 1 \<le> C / (n1 * n2) \<and> C / (n1 * n2) \<le> 1" by linarith
    then show ?thesis unfolding c by simp
  qed
qed

subsection \<open>Rounding to \<open>float32\<close>\<close>

lemma round_half_even_eqI:
  assumes "of_int m - 1 / 2 < x" and "x < of_int m + 1 / 2"
  shows "round_half_even x = m"
proof -
  have fl: "\<lfloor>x\<rfloor> = m \<or> \<lfloor>x\<rfloor> = m - 1"
  proof -
    have "of_int (m - 1) \<le> x" using assms(1) by simp
    then have "m - 1 \<le> \<lfloor>x\<rfloor>" by (simp only: le_floor_iff)
    moreover have "x < of_int m + 1" using assms(2) by simp
    then have "\<lfloor>x\<rfloor> \<le> m" by (simp only: floor_le_iff)
    ultimately show ?thesis by linarith
  qed
  then show ?thesis
  proof
    assume f: "\<lfloor>x\<rfloor> = m"
    then have "x - of_int \<lfloor>x\<rfloor> < 1 / 2" using assms(2) by simp
    then show ?thesis by (simp add: round_half_even_def Let_def f)
  next
    assume f: "\<lfloor>x\<rfloor> = m - 1"
    then have "x - of_int \<lfloor>x\<rfloor> > 1 / 2" using assms(1) by simp
    then show ?thesis by (simp add: round_half_even_def Let_def f)
  qed
qed

lemma round_half_even_of_int: "round_half_even (of_int m) = m"
  by (rule round_half_even_eqI) simp_all

lemma float32_unit:
  assumes "1 \<le> x" and "x < 2"
    and "of_int m - 1 / 2 < x * 2 ^ 23" and "x * 2 ^ 23 < of_int m + 1 / 2"
  shows "float32 x = Num (of_int m / 2 ^ 23)"
proof -
  have pos: "0 < x" using assms(1) by simp
  have "\<lfloor>log 2 x\<rfloor> = 0"
    using assms(1,2) pos by (subst floor_log_eq_powr_iff) simp_all
  then have e: "max \<lfloor>log 2 \<bar>x\<bar>\<rfloor> (- 126) = 0" using pos by simp
  have ulp: "(2::real) powr (real_of_int 0 - (real 24 - 1)) = 1 / 2 ^ 23"
    by (simp add: powr_minus_divide)
  have r: "round_half_even (x / (1 / 2 ^ 23)) = m"
    by (rule round_half_even_eqI) (use assms(3,4) in simp_all)
  have "real_of_int m < 2 * 2 ^ 23 + 1 / 2" using assms(2,3) by simp
  moreover have "- 1 / 2 < real_of_int m" using assms(1,4) by simp
  ultimately have "\<bar>real_of_int m\<bar> < 2 ^ 25" by (simp add: abs_if)
  then have "\<bar>real_of_int m * (1 / 2 ^ 23)\<bar> < 2 ^ 128" by (simp add: abs_mult)
  moreover have "(2::real) powr (real_of_int 127 + 1) = 2 ^ 128" by simp
  ultimately have ovf: "\<not> 2 powr (real_of_int 127 + 1) \<le> \<bar>real_of_int m * (1 / 2 ^ 23)\<bar>"
    by simp
  show ?thesis
    unfolding float32_def round_ieee_def Let_def e ulp r using pos ovf by simp
qed

lemma float32_zero: "float32 0 = Num 0"
  by (simp add: float32_def round_ieee_def)

lemma float32_power_of_two:
  fixes k :: nat
  shows "float32 (2 ^ k) = (if k \<le> 127 then Num (2 ^ k) else PosInf)"
proof -
  have lg: "\<lfloor>log 2 \<bar>(2::real) ^ k\<bar>\<rfloor> = int k"
    by (simp add: log_nat_power)
  have e: "max \<lfloor>log 2 \<bar>(2::real) ^ k\<bar>\<rfloor> (- 126) = int k" unfolding lg by simp
  have ulp: "(2::real) powr (real_of_int (int k) - (real 24 - 1)) = 2 ^ k / 2 ^ 23"
    by (simp add: powr_diff powr_realpow)
  have r: "round_half_even ((2::real) ^ k / (2 ^ k / 2 ^ 23)) = 2 ^ 23"
    using round_half_even_of_int [of "2 ^ 23"] by simp
  have val: "real_of_int (2 ^ 23) * ((2::real) ^ k / 2 ^ 23) = 2 ^ k" by simp
  have ovf: "((2::real) powr (real_of_int 127 + 1) \<le> \<bar>2 ^ k\<bar>) = (128 \<le> k)"
  proof -
    have "(2::real) powr (real_of_int 127 + 1) = 2 powr real (128::nat)" by simp
    also have "\<dots> = 2 ^ 128" by (rule powr_realpow) simp
    finally have p: "(2::real) powr (real_of_int 127 + 1) = 2 ^ 128" .
    have a: "\<bar>(2::real) ^ k\<bar> = 2 ^ k" by simp
    show ?thesis unfolding p a by (rule power_increasing_iff) simp
  qed
  show ?thesis
    unfolding float32_def round_ieee_def Let_def e ulp r val ovf by auto
qed

lemma float32_one: "float32 1 = Num 1"
  using float32_power_of_two [of 0] by simp

lemma float32_two: "float32 2 = Num 2"
  using float32_power_of_two [of 1] by simp

lemma float32_sqrt_two: "float32 (sqrt 2) = Num (11863283 / 2 ^ 23)"
proof (rule float32_unit [of "sqrt 2" 11863283, simplified of_int_numeral])
  show "1 \<le> sqrt 2" by simp
  show "sqrt 2 < 2" by (rule real_less_lsqrt) simp_all
  have "(11863283 - 1 / 2) / 2 ^ 23 < sqrt 2"
    by (rule real_less_rsqrt) (simp add: power2_eq_square)
  then show "11863283 - 1 / 2 < sqrt 2 * 2 ^ 23" by (simp add: field_simps)
  have "sqrt 2 < (11863283 + 1 / 2) / 2 ^ 23"
    by (rule real_less_lsqrt) (simp_all add: power2_eq_square)
  then show "sqrt 2 * 2 ^ 23 < 11863283 + 1 / 2" by (simp add: field_simps)
qed

lemma float32_norm_square:
  "float32 (11863283 / 2 ^ 23 * (11863283 / 2 ^ 23)) = Num (16777215 / 2 ^ 23)"
proof -
  have "float32 (11863283 / 2 ^ 23 * (11863283 / 2 ^ 23)) = Num (of_int 16777215 / 2 ^ 23)"
    by (rule float32_unit) simp_all
  then show ?thesis by simp
qed

lemma float32_quotient:
  "float32 (2 / (16777215 / 2 ^ 23)) = Num (8388609 / 2 ^ 23)"
proof -
  have "float32 (2 / (16777215 / 2 ^ 23)) = Num (of_int 8388609 / 2 ^ 23)"
    by (rule float32_unit) simp_all
  then show ?thesis by simp
qed

lemma fl_add_Num: "fl_add rnd (Num a) (Num b) = rnd (a + b)"
  by (simp add: fl_add_def)

lemma fl_mul_Num: "fl_mul rnd (Num a) (Num b) = rnd (a * b)"
  by (simp add: fl_mul_def)

lemma fl_div_Num: "b \<noteq> 0 \<Longrightarrow> fl_div rnd (Num a) (Num b) = rnd (a / b)"
  by (simp add: fl_div_def)

lemma fl_sqrt_Num: "0 \<le> a \<Longrightarrow> fl_sqrt rnd (Num a) = rnd (sqrt a)"
  by (simp add: fl_sqrt_def)

lemma ieee_runtime_simps:
  "np_array32 ieee_runtime (Num a) = float32 a"
  "np_dot32 ieee_runtime = fl_dot float32"
  "np_norm32 ieee_runtime v = fl_sqrt float32 (fl_dot float32 v v)"
  "f32_mul ieee_runtime = fl_mul float32"
  "f32_div ieee_runtime = fl_div float32"
  "f64_mul ieee_runtime = fl_mul float64"
  "f64_literal ieee_runtime = float64"
  "sort_by_similarity ieee_runtime = stable_sort_desc similarity"
  "sort_by_adjusted_score ieee_runtime = stable_sort_desc adjusted_score"
  by (simp_all add: ieee_runtime_def float_runtime_def)

lemma float32_self_similarity:
  "cosine_similarity ieee_runtime [Num 1, Num 1] [Num 1, Num 1] = Inr (Num (8388609 / 2 ^ 23))"
proof -
  have dot: "fl_dot float32 [Num 1, Num 1] [Num 1, Num 1] = Num 2"
    by (simp add: fl_dot_def fl_add_def fl_mul_def float32_one float32_two)
  have norm: "np_norm32 ieee_runtime [Num 1, Num 1] = Num (11863283 / 2 ^ 23)"
    unfolding ieee_runtime_simps dot by (simp add: fl_sqrt_Num float32_sqrt_two)
  have prod: "f32_mul ieee_runtime (Num (11863283 / 2 ^ 23)) (Num (11863283 / 2 ^ 23))
                = Num (16777215 / 2 ^ 23)"
    unfolding ieee_runtime_simps fl_mul_Num float32_norm_square ..
  have "(16777215 / 2 ^ 23 :: real) \<noteq> 0" by simp
  then have "fl_div float32 (Num 2) (Num (16777215 / 2 ^ 23)) = float32 (2 / (16777215 / 2 ^ 23))"
    by (rule fl_div_Num)
  then have quot: "f32_div ieee_runtime (Num 2) (Num (16777215 / 2 ^ 23)) = Num (8388609 / 2 ^ 23)"
    unfolding ieee_runtime_simps float32_quotient .
  have d: "np_dot ieee_runtime [Num 1, Num 1] [Num 1, Num 1] = Inr (Num 2)"
    by (simp add: np_dot_def ieee_runtime_simps dot)
  have nz: "Num (11863283 / 2 ^ 23) \<noteq> Num 0" by simp
  show ?thesis
    unfolding cosine_similarity_def d norm Let_def sum.case prod quot using nz by simp
qed

subsection \<open>Search\<close>

text \<open>
  With \<open>float32\<close> arithmetic, the store that holds the one vector \<open>[1, 1]\<close> and the query
  \<open>[1, 1]\<close>: the dot product is 2, each norm is \<open>sqrt 2\<close> rounded down to
  \<open>11863283 / 2^23\<close>, the product of the norms rounds to \<open>2 - 2^-23\<close>, and the quotient
  rounds up to \<open>1 + 2^-23\<close>, which is above 1.
\<close>

theorem float32_similarity_counterexample:
  "search ieee_runtime identical_store [Num 1, Num 1] 1 =
     Inr [\<lparr>sr_id = 1, sr_text = ''a'', similarity = Num (1 + 1 / 2 ^ 23), sr_metadata = []\<rparr>] \<and>
   \<not> fl_le (Num (1 + 1 / 2 ^ 23)) (Num 1)"
proof -
  have q: "map (np_array32 ieee_runtime) [Num 1, Num 1] = [Num 1, Num 1]"
    by (simp add: ieee_runtime_simps float32_one)
  have "(8388609::real) / 2 ^ 23 = 1 + 1 / 2 ^ 23" by simp
  then show ?thesis
    unfolding search_def identical_store_def Let_def q
    by (simp add: float32_self_similarity py_take_def py_norm_def ieee_runtime_simps
          stable_sort_desc_def)
qed

text \<open>
  With \<open>float32\<close> arithmetic a similarity can also be NaN, and then the result of the sort
  need not be in order. For the query \<open>[2^30, 0]\<close> the norm of the query is \<open>2^30\<close>. The
  row \<open>[2^100, 0]\<close> has the dot product \<open>2^130\<close> and a norm with the square \<open>2^200\<close>: both
  overflow to infinity, and infinity divided by infinity is NaN. The rows \<open>[0, 1]\<close> and
  \<open>[1, 0]\<close> have the similarities 0 and 1. No comparison with NaN holds, so the sort
  leaves the three results as they are, and the first result is the row of similarity 0.
\<close>

lemma float32_overflow_search:
  "search ieee_runtime overflow_store [Num (2 ^ 30), Num 0] 1 =
     Inr [\<lparr>sr_id = 1, sr_text = ''a'', similarity = Num 0, sr_metadata = []\<rparr>] \<and>
   search ieee_runtime overflow_store [Num (2 ^ 30), Num 0] 3 =
     Inr [\<lparr>sr_id = 1, sr_text = ''a'', similarity = Num 0, sr_metadata = []\<rparr>,
          \<lparr>sr_id = 2, sr_text = ''b'', similarity = NaN, sr_metadata = []\<rparr>,
          \<lparr>sr_id = 3, sr_text = ''c'', similarity = Num 1, sr_metadata = []\<rparr>]"
proof -
  note p30 = float32_power_of_two [of 30, simplified]
  note p60 = float32_power_of_two [of 60, simplified]
  note p130 = float32_power_of_two [of 130, simplified]
  note p200 = float32_power_of_two [of 200, simplified]
  have "sqrt ((2::real) ^ 60) = 2 ^ 30"
    by (rule real_sqrt_unique) simp_all
  note s = this [simplified]
  note fl = fl_add_Num fl_mul_Num fl_sqrt_Num float32_zero float32_one p30 p60 p130 p200 s
  have q: "map (np_array32 ieee_runtime) [Num (2 ^ 30), Num 0] = [Num (2 ^ 30), Num 0]"
    by (simp add: ieee_runtime_simps p30 float32_zero)
  have nq: "fl_sqrt float32 (fl_dot float32 [Num (2 ^ 30), Num 0] [Num (2 ^ 30), Num 0])
              = Num (2 ^ 30)"
    by (simp add: fl_dot_def fl)
  have n01: "fl_sqrt float32 (fl_dot float32 [Num 0, Num 1] [Num 0, Num 1]) = Num 1"
    by (simp add: fl_dot_def fl)
  have n10: "fl_sqrt float32 (fl_dot float32 [Num 1, Num 0] [Num 1, Num 0]) = Num 1"
    by (simp add: fl_dot_def fl)
  have nb: "fl_sqrt float32 (fl_dot float32 [Num (2 ^ 100), Num 0] [Num (2 ^ 100), Num 0]) = PosInf"
    by (simp add: fl_dot_def fl) (simp add: fl_add_def fl_sqrt_def)
  have d1: "fl_dot float32 [Num (2 ^ 30), Num 0] [Num 0, Num 1] = Num 0"
    by (simp add: fl_dot_def fl)
  have d2: "fl_dot float32 [Num (2 ^ 30), Num 0] [Num (2 ^ 100), Num 0] = PosInf"
    by (simp add: fl_dot_def fl) (simp add: fl_add_def)
  have d3: "fl_dot float32 [Num (2 ^ 30), Num 0] [Num 1, Num 0] = Num (2 ^ 30)"
    by (simp add: fl_dot_def fl)
  have c1: "cosine_similarity ieee_runtime [Num (2 ^ 30), Num 0] [Num 0, Num 1] = Inr (Num 0)"
    unfolding cosine_similarity_def np_dot_def ieee_runtime_simps nq n01 d1
    by (simp add: fl fl_div_Num)
  have c2: "cosine_similarity ieee_runtime [Num (2 ^ 30), Num 0] [Num (2 ^ 100), Num 0] = Inr NaN"
    unfolding cosine_similarity_def np_dot_def ieee_runtime_simps nq nb d2
    by (simp add: fl_mul_def fl_div_def fl_negative_def)
  have c3: "cosine_similarity ieee_runtime [Num (2 ^ 30), Num 0] [Num 1, Num 0] = Inr (Num 1)"
    unfolding cosine_similarity_def np_dot_def ieee_runtime_simps nq n10 d3
    by (simp add: fl fl_div_Num)
  have rows: "search_rows ieee_runtime [Num (2 ^ 30), Num 0] overflow_store =
     Inr [\<lparr>sr_id = 1, sr_text = ''a'', similarity = Num 0, sr_metadata = []\<rparr>,
          \<lparr>sr_id = 2, sr_text = ''b'', similarity = NaN, sr_metadata = []\<rparr>,
          \<lparr>sr_id = 3, sr_text = ''c'', similarity = Num 1, sr_metadata = []\<rparr>]"
    unfolding overflow_store_def search_rows.simps embedding_row.simps c1 c2 c3 by simp
  show ?thesis
    unfolding search_def Let_def q rows
    by (simp add: ieee_runtime_simps stable_sort_desc_def py_take_def py_norm_def)
qed

lemma overflow_search_candidates:
  "search ieee_runtime overflow_store [Num (2 ^ 30), Num 0] 3 = Inr nan_candidates"
  using float32_overflow_search by (simp add: nan_candidates_def)

text \<open>
  C5, amended. For every store, every query vector and every arithmetic, with a sort that
  is Python's \<open>list.sort\<close>: \<open>search\<close> returns when every stored vector has the length of
  the query vector; what it returns has at most \<open>k\<close> results for a \<open>k\<close> that is not
  negative; it is sorted by non-increasing similarity when no similarity of a row is NaN;
  every result is one of the rows with the cosine similarity of the query and that row's
  vector as the code computes it, which is exactly 0 when the computed norm of the query
  or of the row's vector is zero. In exact arithmetic on finite vectors every similarity is
  a number between -1 and 1.
\<close>

theorem search_top_k:
  assumes srt: "python_sort similarity (sort_by_similarity rt)"
  shows
  "((\<forall>row \<in> set store. length (row_embedding row) = length q) \<longrightarrow>
      (\<exists>rs. search rt store q k = Inr rs)) \<and>
   (\<forall>rs. search rt store q k = Inr rs \<longrightarrow>
      (0 \<le> k \<longrightarrow> int (length rs) \<le> k) \<and>
      ((\<forall>row \<in> set store.
           cosine_similarity rt (map (np_array32 rt) q) (row_embedding row) \<noteq> Inr NaN) \<longrightarrow>
         sorted_wrt (\<lambda>a b. fl_le (similarity b) (similarity a)) rs) \<and>
      (\<forall>r \<in> set rs.
         \<exists>row \<in> set store.
            sr_id r = row_id row \<and> sr_text r = row_text row \<and>
            cosine_similarity rt (map (np_array32 rt) q) (row_embedding row) = Inr (similarity r) \<and>
            (np_norm32 rt (map (np_array32 rt) q) = Num 0 \<or>
             np_norm32 rt (row_embedding row) = Num 0 \<longrightarrow> similarity r = Num 0))) \<and>
   (\<forall>xs rs. (\<forall>row \<in> set store. \<exists>v. row_embedding row = map Num v) \<and>
            search exact_runtime store (map Num xs) k = Inr rs \<longrightarrow>
      (\<forall>r \<in> set rs. \<exists>c. similarity r = Num c \<and> - 1 \<le> c \<and> c \<le> 1))"
proof -
  have sound: "\<exists>row \<in> set store.
            sr_id r = row_id row \<and> sr_text r = row_text row \<and>
            cosine_similarity rt' (map (np_array32 rt') q') (row_embedding row) = Inr (similarity r)"
    if s: "search rt' store q' k = Inr rs" and r: "r \<in> set rs"
      and p: "python_sort similarity (sort_by_similarity rt')" for rt' q' rs r
  proof -
    from s obtain all_rs where
      all_rs: "search_rows rt' (map (np_array32 rt') q') store = Inr all_rs"
      and rs: "rs = py_take k (sort_by_similarity rt' all_rs)"
      by (auto simp: search_def Let_def split: sum.splits)
    have "set rs \<subseteq> set (sort_by_similarity rt' all_rs)"
      unfolding rs by (rule set_py_take)
    with r have "r \<in> set all_rs" using python_sort_set [OF p, of all_rs] by blast
    with search_rows_sound [OF all_rs] show ?thesis by blast
  qed
  have exact_sort: "python_sort similarity (sort_by_similarity exact_runtime)"
    by (simp add: exact_runtime_def float_runtime_def python_sort_stable)
  show ?thesis
  proof (intro conjI allI impI ballI)
    assume "\<forall>row \<in> set store. length (row_embedding row) = length q"
    then have "\<forall>row \<in> set store. length (row_embedding row) = length (map (np_array32 rt) q)"
      by simp
    then obtain rs where "search_rows rt (map (np_array32 rt) q) store = Inr rs"
      using search_rows_total by blast
    then show "\<exists>rs. search rt store q k = Inr rs" by (simp add: search_def)
  next
    fix rs assume s: "search rt store q k = Inr rs"
    then obtain all_rs where
      all_rs: "search_rows rt (map (np_array32 rt) q) store = Inr all_rs"
      and rs: "rs = py_take k (sort_by_similarity rt all_rs)"
      by (auto simp: search_def Let_def split: sum.splits)
    show "int (length rs) \<le> k" if "0 \<le> k"
      unfolding rs using that by (rule length_py_take)
    show "sorted_wrt (\<lambda>a b. fl_le (similarity b) (similarity a)) rs"
      if nn: "\<forall>row \<in> set store.
           cosine_similarity rt (map (np_array32 rt) q) (row_embedding row) \<noteq> Inr NaN"
    proof -
      have "\<forall>r \<in> set all_rs. similarity r \<noteq> NaN"
      proof
        fix r assume "r \<in> set all_rs"
        with search_rows_sound [OF all_rs] obtain row :: embedding_row where
          "row \<in> set store"
          "cosine_similarity rt (map (np_array32 rt) q) (row_embedding row) = Inr (similarity r)"
          by blast
        with nn show "similarity r \<noteq> NaN" by auto
      qed
      then have "sorted_wrt (\<lambda>a b. fl_le (similarity b) (similarity a))
                   (sort_by_similarity rt all_rs)"
        by (rule python_sort_sorted [OF srt])
      then show ?thesis unfolding rs by (rule sorted_wrt_py_take)
    qed
    fix r assume "r \<in> set rs"
    from sound [OF s this srt] obtain row where row: "row \<in> set store"
      "sr_id r = row_id row" "sr_text r = row_text row"
      "cosine_similarity rt (map (np_array32 rt) q) (row_embedding row) = Inr (similarity r)"
      by blast
    have "np_norm32 rt (map (np_array32 rt) q) = Num 0 \<or>
             np_norm32 rt (row_embedding row) = Num 0 \<longrightarrow> similarity r = Num 0"
      using cosine_similarity_zero_norm [OF row(4)] by blast
    with row show "\<exists>row \<in> set store.
            sr_id r = row_id row \<and> sr_text r = row_text row \<and>
            cosine_similarity rt (map (np_array32 rt) q) (row_embedding row) = Inr (similarity r) \<and>
            (np_norm32 rt (map (np_array32 rt) q) = Num 0 \<or>
             np_norm32 rt (row_embedding row) = Num 0 \<longrightarrow> similarity r = Num 0)"
      by blast
  next
    fix xs rs r
    assume a: "(\<forall>row \<in> set store. \<exists>v. row_embedding row = map Num v) \<and>
            search exact_runtime store (map Num xs) k = Inr rs" and r: "r \<in> set rs"
    from a have fin: "\<forall>row \<in> set store. \<exists>v. row_embedding row = map Num v"
      and s: "search exact_runtime store (map Num xs) k = Inr rs" by simp_all
    have q: "map (np_array32 exact_runtime) (map Num xs) = map Num xs"
      by (simp add: exact_runtime_def float_runtime_def)
    from sound [OF s r exact_sort] obtain row :: embedding_row where
      row: "row \<in> set store" and
      c: "cosine_similarity exact_runtime (map Num xs) (row_embedding row) = Inr (similarity r)"
      unfolding q by blast
    from fin row obtain v where "row_embedding row = map Num v" by blast
    with c show "\<exists>c. similarity r = Num c \<and> - 1 \<le> c \<and> c \<le> 1"
      using cosine_similarity_exact_bounds by simp
  qed
qed

lemma exact_runtime_simps:
  "np_array32 exact_runtime (Num a) = Num a"
  "np_dot32 exact_runtime = fl_dot Num"
  "np_norm32 exact_runtime v = fl_sqrt Num (fl_dot Num v v)"
  "f32_mul exact_runtime = fl_mul Num"
  "f32_div exact_runtime = fl_div Num"
  "f64_mul exact_runtime = fl_mul Num"
  "f64_literal exact_runtime = Num"
  "sort_by_similarity exact_runtime = stable_sort_desc similarity"
  "sort_by_adjusted_score exact_runtime = stable_sort_desc adjusted_score"
  by (simp_all add: exact_runtime_def float_runtime_def)

lemma example_cosine:
  "cosine_similarity exact_runtime [Num 1, Num 0] [Num 0, Num 1] = Inr (Num 0)"
  "cosine_similarity exact_runtime [Num 1, Num 0] [Num 1, Num 0] = Inr (Num 1)"
  "cosine_similarity exact_runtime [Num 1, Num 0] [Num 0, Num 0] = Inr (Num 0)"
  by (simp_all add: cosine_similarity_def np_dot_def exact_runtime_simps fl_dot_def
        fl_add_Num fl_mul_Num fl_div_Num fl_sqrt_Num)

lemma example_search_rows:
  "search_rows exact_runtime [Num 1, Num 0] example_store =
     Inr [\<lparr>sr_id = 1, sr_text = ''aaaaaaaa'', similarity = Num 0,
           sr_metadata = [(''source'', PStr ''https://example.com''), (''type'', PStr ''documentation'')]\<rparr>,
          \<lparr>sr_id = 2, sr_text = ''bbbbbbbb'', similarity = Num 1,
           sr_metadata = [(''source'', PStr ''github_readme''), (''type'', PStr ''readme'')]\<rparr>,
          \<lparr>sr_id = 3, sr_text = ''cc'', similarity = Num 0,
           sr_metadata = [(''source'', PStr ''example_0''), (''type'', PStr ''code_example'')]\<rparr>]"
  unfolding example_store_def search_rows.simps embedding_row.simps example_cosine by simp

lemma example_similarities:
  "\<forall>row \<in> set example_store.
     cosine_similarity exact_runtime (map (np_array32 exact_runtime) [Num 1, Num 0])
       (row_embedding row) \<noteq> Inr NaN"
  by (simp add: example_store_def exact_runtime_simps(1) example_cosine)

theorem search_top_k_witness:
  "python_sort similarity (sort_by_similarity exact_runtime) \<and>
   (\<exists>rs. search exact_runtime example_store [Num 1, Num 0] 2 = Inr rs \<and> int (length rs) \<le> 2 \<and>
         sorted_wrt (\<lambda>a b. fl_le (similarity b) (similarity a)) rs \<and>
         (\<forall>r \<in> set rs. \<exists>c. similarity r = Num c \<and> - 1 \<le> c \<and> c \<le> 1))"
proof -
  have p: "python_sort similarity (sort_by_similarity exact_runtime)"
    by (simp add: exact_runtime_simps python_sort_stable)
  have dims: "\<forall>row \<in> set example_store. length (row_embedding row) = length [Num 1, Num 0]"
    by (simp add: example_store_def)
  have fin: "\<forall>row \<in> set example_store. \<exists>v. row_embedding row = map Num v"
  proof
    fix row assume "row \<in> set example_store"
    then have "row_embedding row = map Num [0, 1] \<or> row_embedding row = map Num [1, 0]
                 \<or> row_embedding row = map Num [0, 0]"
      by (auto simp: example_store_def)
    then show "\<exists>v. row_embedding row = map Num v" by blast
  qed
  note t = search_top_k [OF p, of example_store "[Num 1, Num 0]" 2]
  from t [THEN conjunct1] dims obtain rs where
    rs: "search exact_runtime example_store [Num 1, Num 0] 2 = Inr rs" by blast
  note u = t [THEN conjunct2, THEN conjunct1, THEN spec, THEN mp, OF rs]
  from u have len: "int (length rs) \<le> 2" by simp
  from u example_similarities
  have srt: "sorted_wrt (\<lambda>a b. fl_le (similarity b) (similarity a)) rs" by blast
  have "search exact_runtime example_store (map Num [1, 0]) 2 = Inr rs" using rs by simp
  with fin t [THEN conjunct2, THEN conjunct2]
  have "\<forall>r \<in> set rs. \<exists>c. similarity r = Num c \<and> - 1 \<le> c \<and> c \<le> 1" by blast
  with p rs len srt show ?thesis by blast
qed

section \<open>Properties of the context manager\<close>

subsection \<open>Re-ranking\<close>

lemma py_lower_char_eq_iff:
  assumes "k = CHR '' '' \<or> (97 \<le> (of_char k :: nat) \<and> (of_char k :: nat) \<le> 122)"
  shows "py_lower_char c = k \<longleftrightarrow> same_ignoring_case c k"
proof -
  have n: "(of_char c :: nat) < 256" by simp
  have eq: "c = k \<longleftrightarrow> (of_char c :: nat) = of_char k" by simp
  have up: "char_of ((of_char c :: nat) + 32) = k \<longleftrightarrow> ((of_char c :: nat) + 32) mod 256 = of_char k"
    by (simp add: char_of_eq_iff take_bit_eq_mod)
  from assms show ?thesis
  proof
    assume k: "k = CHR '' ''"
    then have m: "(of_char k :: nat) = 32" by simp
    show ?thesis
      unfolding py_lower_char_def same_ignoring_case_def Let_def
      using n by (auto simp: up eq m simp del: of_char_eq_iff)
  next
    assume m: "97 \<le> (of_char k :: nat) \<and> (of_char k :: nat) \<le> 122"
    show ?thesis
      unfolding py_lower_char_def same_ignoring_case_def Let_def
      using n m by (auto simp: up eq simp del: of_char_eq_iff)
  qed
qed

lemma map_eq_iff_list_all2: "map f xs = ys \<longleftrightarrow> list_all2 (\<lambda>x y. f x = y) xs ys"
  by (induction xs arbitrary: ys) (auto simp: list_all2_Cons1)

lemma py_lower_eq_iff:
  assumes "\<forall>k \<in> set kw. k = CHR '' '' \<or> (97 \<le> (of_char k :: nat) \<and> (of_char k :: nat) \<le> 122)"
  shows "py_lower xs = kw \<longleftrightarrow> list_all2 same_ignoring_case xs kw"
proof -
  have "list_all2 (\<lambda>x y. py_lower_char x = y) xs kw \<longleftrightarrow> list_all2 same_ignoring_case xs kw"
    using assms
  proof (induction xs arbitrary: kw)
    case Nil
    then show ?case by simp
  next
    case (Cons x xs)
    then show ?case by (cases kw) (simp_all add: py_lower_char_eq_iff)
  qed
  then show ?thesis by (simp add: py_lower_def map_eq_iff_list_all2)
qed

lemma py_in_py_lower_iff:
  assumes "\<forall>k \<in> set kw. k = CHR '' '' \<or> (97 \<le> (of_char k :: nat) \<and> (of_char k :: nat) \<le> 122)"
  shows "py_in kw (py_lower s) \<longleftrightarrow> contains_ignoring_case kw s"
proof
  assume "py_in kw (py_lower s)"
  then obtain p q where "py_lower s = p @ kw @ q" unfolding py_in_iff by blast
  then have "\<exists>us vs. s = us @ vs \<and> p = map py_lower_char us \<and> kw @ q = map py_lower_char vs"
    unfolding py_lower_def by (rule map_eq_append_conv [THEN iffD1])
  then obtain s1 s2 where s: "s = s1 @ s2" and s2: "py_lower s2 = kw @ q"
    unfolding py_lower_def by metis
  from s2 have len: "length kw \<le> length s2"
    by (metis length_append length_map py_lower_def le_add1)
  from s2 have "py_lower (take (length kw) s2) = kw"
    by (metis append_eq_conv_conj py_lower_def take_map)
  then have "list_all2 same_ignoring_case (take (length kw) s2) kw"
    using py_lower_eq_iff [OF assms] by blast
  moreover have "s2 \<in> set (suffixes s)" by (simp add: s in_set_suffixes suffix_def)
  ultimately show "contains_ignoring_case kw s"
    unfolding contains_ignoring_case_def list_ex_iff using len by blast
next
  assume "contains_ignoring_case kw s"
  then obtain t where t: "t \<in> set (suffixes s)" "length kw \<le> length t"
    "list_all2 same_ignoring_case (take (length kw) t) kw"
    unfolding contains_ignoring_case_def list_ex_iff by blast
  from t(1) obtain r where s: "s = r @ t" by (auto simp: in_set_suffixes suffix_def)
  from t(3) have "py_lower (take (length kw) t) = kw"
    using py_lower_eq_iff [OF assms] by blast
  then have "py_lower s = py_lower r @ kw @ py_lower (drop (length kw) t)"
    unfolding s py_lower_def
    by (metis append_take_drop_id map_append)
  then show "py_in kw (py_lower s)" unfolding py_in_iff by blast
qed

lemma needs_examples_iff:
  "needs_examples query \<longleftrightarrow>
     (\<exists>keyword \<in> {''example'', ''how to'', ''usage''}. contains_ignoring_case keyword query)"
proof -
  have "py_in ''example'' (py_lower query) \<longleftrightarrow> contains_ignoring_case ''example'' query"
    by (rule py_in_py_lower_iff) simp
  moreover have "py_in ''how to'' (py_lower query) \<longleftrightarrow> contains_ignoring_case ''how to'' query"
    by (rule py_in_py_lower_iff) simp
  moreover have "py_in ''usage'' (py_lower query) \<longleftrightarrow> contains_ignoring_case ''usage'' query"
    by (rule py_in_py_lower_iff) simp
  ultimately show ?thesis by (simp add: needs_examples_def)
qed

text \<open>
  The candidates of \<open>nan_candidates\<close> have the similarities 0, NaN and 1, and the query
  \<open>parse\<close> holds none of the three keywords, so every adjusted score is the similarity.
  No comparison with NaN holds, so the sort leaves the candidates as they are: the
  candidate of score 1 comes after the candidate of score 0.
\<close>

theorem nan_score_counterexample:
  "rank_and_filter ieee_runtime nan_candidates ''parse'' =
     [\<lparr>sr_id = 1, sr_text = ''a'', similarity = Num 0, sr_metadata = [], adjusted_score = Num 0\<rparr>,
      \<lparr>sr_id = 2, sr_text = ''b'', similarity = NaN, sr_metadata = [], adjusted_score = NaN\<rparr>,
      \<lparr>sr_id = 3, sr_text = ''c'', similarity = Num 1, sr_metadata = [], adjusted_score = Num 1\<rparr>] \<and>
   fl_lt (Num 0) (Num 1)"
proof -
  have "\<not> needs_examples ''parse''" by code_simp
  then show ?thesis
    by (simp add: rank_and_filter_def nan_candidates_def score_result_def Let_def
          ieee_runtime_simps stable_sort_desc_def)
qed

text \<open>
  C6, amended. With a sort that is Python's \<open>list.sort\<close>, \<open>_rank_and_filter\<close> returns the
  candidates it was given, each with an adjusted score: the raw similarity, multiplied by
  1.3 (the product of Python floats) exactly when the query holds one of "example",
  "how to", "usage", the case of the letters ignored, and the candidate's metadata type is
  "code_example"; the other fields are kept. When no adjusted score is NaN, the result is
  sorted by the adjusted score in descending order.
\<close>

theorem rank_and_filter_policy:
  assumes srt: "python_sort adjusted_score (sort_by_adjusted_score rt)"
  shows
  "mset (rank_and_filter rt results query) = mset (map (score_result rt query) results) \<and>
   (\<forall>r. adjusted_score (score_result rt query r) =
          (if (\<exists>keyword \<in> {''example'', ''how to'', ''usage''}.
                 contains_ignoring_case keyword query) \<and>
              map_of (sr_metadata r) ''type'' = Some (PStr ''code_example'')
           then f64_mul rt (similarity r) (f64_literal rt 1.3) else similarity r) \<and>
        sr_id (score_result rt query r) = sr_id r \<and>
        sr_text (score_result rt query r) = sr_text r \<and>
        similarity (score_result rt query r) = similarity r \<and>
        sr_metadata (score_result rt query r) = sr_metadata r) \<and>
   ((\<forall>r \<in> set results. adjusted_score (score_result rt query r) \<noteq> NaN) \<longrightarrow>
      sorted_wrt (\<lambda>a b. fl_le (adjusted_score b) (adjusted_score a))
        (rank_and_filter rt results query))"
proof (intro conjI allI impI)
  from srt show "mset (rank_and_filter rt results query) = mset (map (score_result rt query) results)"
    by (simp add: rank_and_filter_def python_sort_def)
  show "sorted_wrt (\<lambda>a b. fl_le (adjusted_score b) (adjusted_score a))
          (rank_and_filter rt results query)"
    if "\<forall>r \<in> set results. adjusted_score (score_result rt query r) \<noteq> NaN"
  proof -
    from that have "\<forall>x \<in> set (map (score_result rt query) results). adjusted_score x \<noteq> NaN"
      by simp
    then show ?thesis
      unfolding rank_and_filter_def by (rule python_sort_sorted [OF srt])
  qed
  fix r
  show "adjusted_score (score_result rt query r) =
          (if (\<exists>keyword \<in> {''example'', ''how to'', ''usage''}.
                 contains_ignoring_case keyword query) \<and>
              map_of (sr_metadata r) ''type'' = Some (PStr ''code_example'')
           then f64_mul rt (similarity r) (f64_literal rt 1.3) else similarity r)"
    unfolding needs_examples_iff [symmetric] by (simp add: score_result_def Let_def)
qed (simp_all add: score_result_def Let_def)

theorem rank_and_filter_policy_witness:
  "python_sort adjusted_score (sort_by_adjusted_score exact_runtime) \<and>
   contains_ignoring_case ''usage'' ''Show USAGE'' \<and>
   adjusted_score
     (score_result exact_runtime ''Show USAGE''
        \<lparr>sr_id = 3, sr_text = ''cc'', similarity = Num (1 / 2),
         sr_metadata = [(''source'', PStr ''example_0''), (''type'', PStr ''code_example'')]\<rparr>)
     = f64_mul exact_runtime (Num (1 / 2)) (f64_literal exact_runtime 1.3) \<and>
   f64_mul exact_runtime (Num (1 / 2)) (f64_literal exact_runtime 1.3) = Num (13 / 20) \<and>
   sorted_wrt (\<lambda>a b. fl_le (adjusted_score b) (adjusted_score a))
     (rank_and_filter exact_runtime
        [\<lparr>sr_id = 1, sr_text = ''aaaaaaaa'', similarity = Num (3 / 5),
          sr_metadata = [(''source'', PStr ''github_readme''), (''type'', PStr ''readme'')]\<rparr>,
         \<lparr>sr_id = 3, sr_text = ''cc'', similarity = Num (1 / 2),
          sr_metadata = [(''source'', PStr ''example_0''), (''type'', PStr ''code_example'')]\<rparr>]
        ''Show USAGE'')"
proof -
  have p: "python_sort adjusted_score (sort_by_adjusted_score exact_runtime)"
    by (simp add: exact_runtime_simps python_sort_stable)
  have kw: "contains_ignoring_case ''usage'' ''Show USAGE''" by code_simp
  then have any: "\<exists>keyword \<in> {''example'', ''how to'', ''usage''}.
                   contains_ignoring_case keyword ''Show USAGE''" by blast
  have v: "f64_mul exact_runtime (Num (1 / 2)) (f64_literal exact_runtime 1.3) = Num (13 / 20)"
    by (simp add: exact_runtime_simps fl_mul_Num)
  note t = rank_and_filter_policy
        [OF p, of "[\<lparr>sr_id = 1, sr_text = ''aaaaaaaa'', similarity = Num (3 / 5),
          sr_metadata = [(''source'', PStr ''github_readme''), (''type'', PStr ''readme'')]\<rparr>,
         \<lparr>sr_id = 3, sr_text = ''cc'', similarity = Num (1 / 2),
          sr_metadata = [(''source'', PStr ''example_0''), (''type'', PStr ''code_example'')]\<rparr>]"
            "''Show USAGE''"]
  note sc = t [THEN conjunct2, THEN conjunct1, THEN spec, THEN conjunct1]
  have a1: "adjusted_score
     (score_result exact_runtime ''Show USAGE''
        \<lparr>sr_id = 3, sr_text = ''cc'', similarity = Num (1 / 2),
         sr_metadata = [(''source'', PStr ''example_0''), (''type'', PStr ''code_example'')]\<rparr>)
     = f64_mul exact_runtime (Num (1 / 2)) (f64_literal exact_runtime 1.3)"
    using any by (simp add: sc del: insert_iff bex_simps)
  have a2: "adjusted_score
     (score_result exact_runtime ''Show USAGE''
        \<lparr>sr_id = 1, sr_text = ''aaaaaaaa'', similarity = Num (3 / 5),
          sr_metadata = [(''source'', PStr ''github_readme''), (''type'', PStr ''readme'')]\<rparr>)
     = Num (3 / 5)"
    by (simp add: sc)
  have nn: "\<forall>r \<in> set [\<lparr>sr_id = 1, sr_text = ''aaaaaaaa'', similarity = Num (3 / 5),
          sr_metadata = [(''source'', PStr ''github_readme''), (''type'', PStr ''readme'')]\<rparr>,
         \<lparr>sr_id = 3, sr_text = ''cc'', similarity = Num (1 / 2),
          sr_metadata = [(''source'', PStr ''example_0''), (''type'', PStr ''code_example'')]\<rparr>].
          adjusted_score (score_result exact_runtime ''Show USAGE'' r) \<noteq> NaN"
    unfolding list.set ball_simps a1 a2 v by simp
  from t [THEN conjunct2, THEN conjunct2, THEN mp, OF nn] p kw a1 v
  show ?thesis by blast
qed

subsection \<open>The token budget\<close>

lemma collect_context_spec:
  "\<exists>n \<le> length rs.
     collect_context m acc tot rs = acc @ map sr_text (take n rs) \<and>
     (n > 0 \<longrightarrow> tot + sum_list (map (estimate_tokens \<circ> sr_text) (take n rs)) \<le> m) \<and>
     (n < length rs \<longrightarrow>
        tot + sum_list (map (estimate_tokens \<circ> sr_text) (take n rs))
          + estimate_tokens (sr_text (rs ! n)) > m)"
proof (induction rs arbitrary: acc tot)
  case Nil
  then show ?case by simp
next
  case (Cons r rs)
  show ?case
  proof (cases "tot + estimate_tokens (sr_text r) \<le> m")
    case True
    from Cons.IH [of "acc @ [sr_text r]" "tot + estimate_tokens (sr_text r)"]
    obtain n where n: "n \<le> length rs"
      "collect_context m (acc @ [sr_text r]) (tot + estimate_tokens (sr_text r)) rs
         = (acc @ [sr_text r]) @ map sr_text (take n rs)"
      "n > 0 \<longrightarrow> tot + estimate_tokens (sr_text r)
          + sum_list (map (estimate_tokens \<circ> sr_text) (take n rs)) \<le> m"
      "n < length rs \<longrightarrow>
        tot + estimate_tokens (sr_text r)
          + sum_list (map (estimate_tokens \<circ> sr_text) (take n rs))
          + estimate_tokens (sr_text (rs ! n)) > m"
      by blast
    show ?thesis
    proof (intro exI [of _ "Suc n"] conjI impI)
      show "Suc n \<le> length (r # rs)" using n(1) by simp
      show "collect_context m acc tot (r # rs) = acc @ map sr_text (take (Suc n) (r # rs))"
        using True n(2) by (simp add: Let_def)
      show "tot + sum_list (map (estimate_tokens \<circ> sr_text) (take (Suc n) (r # rs))) \<le> m"
        using True n(3) by (cases "n > 0") (simp_all add: algebra_simps)
      show "m < tot + sum_list (map (estimate_tokens \<circ> sr_text) (take (Suc n) (r # rs)))
                 + estimate_tokens (sr_text ((r # rs) ! Suc n))"
        if "Suc n < length (r # rs)"
        using that n(4) by (simp add: algebra_simps)
    qed
  next
    case False
    show ?thesis
      by (rule exI [of _ 0]) (use False in \<open>simp add: Let_def\<close>)
  qed
qed

lemma retrieve_relevant_context_returns:
  assumes "embed_text cm (lib @ '' '' @ query) = Inr query_embedding"
    and "\<forall>row \<in> set (db cm). length (row_embedding row) = length query_embedding"
  shows "\<exists>texts. retrieve_relevant_context rt cfg cm query lib top_k_arg = Inr texts"
proof -
  obtain results where
    "search_rows rt (map (np_array32 rt) query_embedding) (db cm) = Inr results"
    using search_rows_total [of "db cm" "map (np_array32 rt) query_embedding" rt] assms(2) by auto
  then show ?thesis
    using assms(1) by (simp add: retrieve_relevant_context_def search_def Let_def)
qed

text \<open>
  C2. For a budget that is not negative, the texts that \<open>retrieve_relevant_context\<close>
  returns have estimated tokens (\<open>len(text) // 4\<close> each) that sum to at most the
  configured \<open>max_context_tokens\<close>, for every query, library name, \<open>k\<close> and store. The
  texts are those of a prefix of the first \<open>k\<close> re-ranked candidates, in that order, and
  when the prefix is not the whole list, the estimate of the next candidate would take
  the sum over the budget: the loop stops there, whatever comes later.
\<close>

theorem retrieve_within_budget:
  assumes ret: "retrieve_relevant_context rt cfg cm query lib top_k_arg = Inr texts"
    and cfgd: "max_tokens cm = max_context_tokens cfg"
    and nonneg: "0 \<le> max_context_tokens cfg"
  shows "sum_list (map estimate_tokens texts) \<le> max_context_tokens cfg \<and>
         (\<exists>query_embedding results ranked.
            embed_text cm (lib @ '' '' @ query) = Inr query_embedding \<and>
            search rt (db cm) query_embedding
              ((case top_k_arg of None \<Rightarrow> top_k_results cfg | Some k \<Rightarrow> k) * 2) = Inr results \<and>
            ranked = py_take (case top_k_arg of None \<Rightarrow> top_k_results cfg | Some k \<Rightarrow> k)
                       (rank_and_filter rt results query) \<and>
            length texts \<le> length ranked \<and>
            texts = map sr_text (take (length texts) ranked) \<and>
            (length texts < length ranked \<longrightarrow>
               sum_list (map estimate_tokens texts)
                 + estimate_tokens (sr_text (ranked ! length texts)) > max_context_tokens cfg))"
proof -
  define k where "k = (case top_k_arg of None \<Rightarrow> top_k_results cfg | Some k \<Rightarrow> k)"
  from ret obtain qe where qe: "embed_text cm (lib @ '' '' @ query) = Inr qe"
    by (auto simp: retrieve_relevant_context_def Let_def split: sum.splits)
  from ret qe obtain results where res: "search rt (db cm) qe (k * 2) = Inr results"
    by (auto simp: retrieve_relevant_context_def Let_def k_def split: sum.splits)
  define ranked where "ranked = py_take k (rank_and_filter rt results query)"
  from ret qe res have texts: "texts = collect_context (max_tokens cm) [] 0 ranked"
    by (simp add: retrieve_relevant_context_def Let_def k_def ranked_def)
  from collect_context_spec [of ranked "max_tokens cm" "[]" 0]
  obtain n where n: "n \<le> length ranked"
    "collect_context (max_tokens cm) [] 0 ranked = map sr_text (take n ranked)"
    "n > 0 \<longrightarrow> sum_list (map (estimate_tokens \<circ> sr_text) (take n ranked)) \<le> max_tokens cm"
    "n < length ranked \<longrightarrow>
        sum_list (map (estimate_tokens \<circ> sr_text) (take n ranked))
          + estimate_tokens (sr_text (ranked ! n)) > max_tokens cm"
    by auto
  from texts n(1,2) have len: "length texts = n" by simp
  have sum_eq: "sum_list (map estimate_tokens texts)
                  = sum_list (map (estimate_tokens \<circ> sr_text) (take n ranked))"
    using texts n(2) by simp
  have bound: "sum_list (map estimate_tokens texts) \<le> max_context_tokens cfg"
  proof (cases "n > 0")
    case True
    with n(3) sum_eq cfgd show ?thesis by simp
  next
    case False
    with texts n(2) nonneg show ?thesis by simp
  qed
  show ?thesis
  proof (intro conjI exI)
    show "sum_list (map estimate_tokens texts) \<le> max_context_tokens cfg" by (rule bound)
    show "embed_text cm (lib @ '' '' @ query) = Inr qe" by (rule qe)
    show "search rt (db cm) qe ((case top_k_arg of None \<Rightarrow> top_k_results cfg | Some k \<Rightarrow> k) * 2)
            = Inr results"
      using res by (simp add: k_def)
    show "ranked = py_take (case top_k_arg of None \<Rightarrow> top_k_results cfg | Some k \<Rightarrow> k)
                       (rank_and_filter rt results query)"
      by (simp add: ranked_def k_def)
    show "length texts \<le> length ranked" using len n(1) by simp
    show "texts = map sr_text (take (length texts) ranked)" using texts n(2) len by simp
    show "length texts < length ranked \<longrightarrow>
               sum_list (map estimate_tokens texts)
                 + estimate_tokens (sr_text (ranked ! length texts)) > max_context_tokens cfg"
      using n(4) len sum_eq cfgd by simp
  qed
qed

lemma example_search_all:
  "search exact_runtime example_store [Num 1, Num 0] 6 =
     Inr [\<lparr>sr_id = 2, sr_text = ''bbbbbbbb'', similarity = Num 1,
           sr_metadata = [(''source'', PStr ''github_readme''), (''type'', PStr ''readme'')]\<rparr>,
          \<lparr>sr_id = 1, sr_text = ''aaaaaaaa'', similarity = Num 0,
           sr_metadata = [(''source'', PStr ''https://example.com''), (''type'', PStr ''documentation'')]\<rparr>,
          \<lparr>sr_id = 3, sr_text = ''cc'', similarity = Num 0,
           sr_metadata = [(''source'', PStr ''example_0''), (''type'', PStr ''code_example'')]\<rparr>]"
proof -
  have "map (np_array32 exact_runtime) [Num 1, Num 0] = [Num 1, Num 0]"
    by (simp add: exact_runtime_simps)
  then show ?thesis
    by (simp add: search_def example_search_rows py_take_def py_norm_def exact_runtime_simps
          stable_sort_desc_def)
qed

lemma example_retrieve:
  "retrieve_relevant_context exact_runtime (default_settings\<lparr>max_context_tokens := 3\<rparr>) example_cm
     ''parse'' ''lib'' (Some 3) = Inr [''bbbbbbbb'']"
proof -
  have "\<not> needs_examples ''parse''" by code_simp
  then show ?thesis
    by (simp add: retrieve_relevant_context_def example_cm_def context_manager_init_def
          example_search_all py_take_def py_norm_def rank_and_filter_def
          score_result_def estimate_tokens_def Let_def exact_runtime_simps stable_sort_desc_def)
qed

theorem retrieve_within_budget_witness:
  "retrieve_relevant_context exact_runtime (default_settings\<lparr>max_context_tokens := 3\<rparr>) example_cm
     ''parse'' ''lib'' (Some 3) = Inr [''bbbbbbbb''] \<and>
   sum_list (map estimate_tokens [''bbbbbbbb'']) \<le> 3"
  using retrieve_within_budget
    [OF example_retrieve, unfolded example_cm_def context_manager_init_def]
  by (simp add: example_retrieve)

section \<open>Properties of the chunker\<close>

subsection \<open>White space and paragraphs\<close>

lemma has_text_iff: "has_text s \<longleftrightarrow> (\<exists>c \<in> set s. \<not> py_isspace c)"
  by (simp add: has_text_def list_ex_iff)

lemma solid_iff: "solid s \<longleftrightarrow> s \<noteq> [] \<and> \<not> py_isspace (hd s)"
  by (cases s) (simp_all add: solid_def)

lemma isspace_newline: "py_isspace newline"
  by (simp add: py_isspace_def newline_def)

lemma dropWhile_all_iff: "(\<forall>x \<in> set (dropWhile P xs). P x) \<longleftrightarrow> (\<forall>x \<in> set xs. P x)"
proof
  assume a: "\<forall>x \<in> set (dropWhile P xs). P x"
  have "dropWhile P xs = []"
  proof (rule ccontr)
    assume ne: "dropWhile P xs \<noteq> []"
    then have "\<not> P (hd (dropWhile P xs))" by (rule hd_dropWhile)
    moreover from ne have "hd (dropWhile P xs) \<in> set (dropWhile P xs)" by simp
    ultimately show False using a by blast
  qed
  then show "\<forall>x \<in> set xs. P x" by (simp add: dropWhile_eq_Nil_conv)
next
  assume "\<forall>x \<in> set xs. P x"
  then show "\<forall>x \<in> set (dropWhile P xs). P x" using set_dropWhileD by fastforce
qed

lemma py_strip_Nil_iff: "py_strip s = [] \<longleftrightarrow> \<not> has_text s"
proof -
  have "py_strip s = [] \<longleftrightarrow> (\<forall>x \<in> set (dropWhile py_isspace s). py_isspace x)"
    by (simp add: py_strip_def dropWhile_eq_Nil_conv)
  then show ?thesis by (simp add: dropWhile_all_iff has_text_iff)
qed

lemma py_strip_solid: "py_strip s \<noteq> [] \<Longrightarrow> solid (py_strip s)"
proof -
  assume ne: "py_strip s \<noteq> []"
  define t where "t = dropWhile py_isspace s"
  have split: "t = py_strip s @ rev (takeWhile py_isspace (rev t))"
  proof -
    have "t = rev (rev t)" by simp
    also have "\<dots> = rev (takeWhile py_isspace (rev t) @ dropWhile py_isspace (rev t))"
      by (simp only: takeWhile_dropWhile_id)
    also have "\<dots> = rev (dropWhile py_isspace (rev t)) @ rev (takeWhile py_isspace (rev t))"
      by (rule rev_append)
    finally show ?thesis by (simp only: py_strip_def t_def)
  qed
  from ne split have tne: "t \<noteq> []" by auto
  then have "\<not> py_isspace (hd t)" unfolding t_def by (rule hd_dropWhile)
  moreover from ne split have "hd t = hd (py_strip s)" by (metis hd_append2)
  ultimately show ?thesis using ne by (simp add: solid_iff)
qed

lemma solid_has_text: "solid s \<Longrightarrow> has_text s"
  by (cases s) (auto simp: solid_def has_text_iff)

lemma py_join_solid: "xs \<noteq> [] \<Longrightarrow> solid (hd xs) \<Longrightarrow> solid (py_join sep xs)"
  by (induction sep xs rule: py_join.induct) (auto simp: solid_iff)

lemma split_paragraphs_separator:
  "c = newline \<and> cs \<noteq> [] \<and> hd cs = newline \<Longrightarrow>
     split_paragraphs (c # cs) = [] # split_paragraphs (dropWhile (\<lambda>x. x = newline) cs)"
  by simp

lemma split_paragraphs_character:
  "\<not> (c = newline \<and> cs \<noteq> [] \<and> hd cs = newline) \<Longrightarrow>
     split_paragraphs (c # cs) =
       (case split_paragraphs cs of [] \<Rightarrow> [[c]] | p # ps \<Rightarrow> (c # p) # ps)"
  by (subst split_paragraphs.simps) (simp only: if_False)

lemma split_paragraphs_nonempty: "split_paragraphs s \<noteq> []"
proof (cases s)
  case Nil
  then show ?thesis by simp
next
  case (Cons c cs)
  show ?thesis
  proof (cases "c = newline \<and> cs \<noteq> [] \<and> hd cs = newline")
    case True
    then show ?thesis unfolding Cons by (simp only: split_paragraphs_separator) simp
  next
    case False
    then have "split_paragraphs (c # cs) =
       (case split_paragraphs cs of [] \<Rightarrow> [[c]] | p # ps \<Rightarrow> (c # p) # ps)"
      by (rule split_paragraphs_character)
    then show ?thesis unfolding Cons by (simp split: list.splits)
  qed
qed

lemma has_text_dropWhile_newline:
  assumes "has_text cs"
  shows "has_text (dropWhile (\<lambda>x. x = newline) cs)"
proof -
  from assms obtain x where x: "x \<in> set cs" "\<not> py_isspace x" by (auto simp: has_text_iff)
  have "cs = takeWhile (\<lambda>x. x = newline) cs @ dropWhile (\<lambda>x. x = newline) cs" by simp
  then have "set cs = set (takeWhile (\<lambda>x. x = newline) cs)
               \<union> set (dropWhile (\<lambda>x. x = newline) cs)"
    by (metis set_append)
  moreover have "x \<notin> set (takeWhile (\<lambda>x. x = newline) cs)"
    using x(2) isspace_newline by (auto dest: set_takeWhileD)
  ultimately have "x \<in> set (dropWhile (\<lambda>x. x = newline) cs)" using x(1) by blast
  with x(2) show ?thesis unfolding has_text_iff by blast
qed

lemma split_paragraphs_has_text:
  "has_text s \<Longrightarrow> \<exists>p \<in> set (split_paragraphs s). has_text p"
proof (induction s rule: split_paragraphs.induct)
  case 1
  then show ?case by (simp add: has_text_iff)
next
  case (2 c cs)
  show ?case
  proof (cases "c = newline \<and> cs \<noteq> [] \<and> hd cs = newline")
    case True
    with "2.prems" have "has_text cs" by (auto simp: has_text_iff isspace_newline)
    then have "has_text (dropWhile (\<lambda>x. x = newline) cs)" by (rule has_text_dropWhile_newline)
    from "2.IH"(1) [OF True this]
    show ?thesis by (simp only: split_paragraphs_separator [OF True]) simp
  next
    case False
    obtain p ps where pps: "split_paragraphs cs = p # ps"
      using split_paragraphs_nonempty [of cs] by (cases "split_paragraphs cs") auto
    have eq: "split_paragraphs (c # cs) = (c # p) # ps"
      by (simp only: split_paragraphs_character [OF False] pps list.case)
    show ?thesis
    proof (cases "py_isspace c")
      case True
      with "2.prems" have "has_text cs" by (auto simp: has_text_iff)
      from "2.IH"(2) [OF False this] obtain q where q: "q \<in> set (p # ps)" "has_text q"
        unfolding pps by blast
      show ?thesis
      proof (cases "q = p")
        case True
        with q(2) have "has_text (c # p)" by (simp add: has_text_iff)
        then show ?thesis unfolding eq by simp
      next
        case False
        with q have "q \<in> set ps" by simp
        with q(2) show ?thesis unfolding eq by auto
      qed
    next
      case nonspace: False
      then have "has_text (c # p)" by (simp add: has_text_iff)
      then show ?thesis unfolding eq by simp
    qed
  qed
qed

lemma semantic_loop_skip:
  "py_strip p = [] \<Longrightarrow>
     semantic_loop ch chunks cur len (p # ps) = semantic_loop ch chunks cur len ps"
  by (simp add: Let_def)

lemma semantic_loop_emit_overlap:
  "py_strip p \<noteq> [] \<Longrightarrow> len + int (length (py_strip p)) > chunk_size ch \<Longrightarrow> cur \<noteq> [] \<Longrightarrow>
   chunk_overlap ch > 0 \<and> length cur > 1 \<Longrightarrow>
     semantic_loop ch chunks cur len (p # ps) =
       semantic_loop ch (chunks @ [py_join ''\<newline>\<newline>'' cur]) [last cur, py_strip p]
         (int (length (last cur)) + int (length (py_strip p))) ps"
  by (simp add: Let_def)

lemma semantic_loop_emit:
  "py_strip p \<noteq> [] \<Longrightarrow> len + int (length (py_strip p)) > chunk_size ch \<Longrightarrow> cur \<noteq> [] \<Longrightarrow>
   \<not> (chunk_overlap ch > 0 \<and> length cur > 1) \<Longrightarrow>
     semantic_loop ch chunks cur len (p # ps) =
       semantic_loop ch (chunks @ [py_join ''\<newline>\<newline>'' cur]) [py_strip p]
         (int (length (py_strip p))) ps"
  by (auto simp: Let_def)

lemma semantic_loop_append:
  "py_strip p \<noteq> [] \<Longrightarrow> \<not> (len + int (length (py_strip p)) > chunk_size ch \<and> cur \<noteq> []) \<Longrightarrow>
     semantic_loop ch chunks cur len (p # ps) =
       semantic_loop ch chunks (cur @ [py_strip p]) (len + int (length (py_strip p))) ps"
  by (auto simp: Let_def)

lemma semantic_loop_solid:
  "\<forall>c \<in> set chunks. solid c \<Longrightarrow> \<forall>c \<in> set cur. solid c \<Longrightarrow>
     \<forall>c \<in> set (semantic_loop ch chunks cur len ps). solid c"
proof (induction ps arbitrary: chunks cur len)
  case Nil
  show ?case
  proof (cases "cur = []")
    case True
    with Nil show ?thesis by simp
  next
    case False
    then have "solid (hd cur)" using Nil(2) by simp
    with False have "solid (py_join ''\<newline>\<newline>'' cur)" by (rule py_join_solid)
    with Nil(1) False show ?thesis by simp
  qed
next
  case (Cons p ps)
  show ?case
  proof (cases "py_strip p = []")
    case True
    show ?thesis
      unfolding semantic_loop_skip [OF True] using Cons.prems by (rule Cons.IH)
  next
    case False
    then have sp: "solid (py_strip p)" by (rule py_strip_solid)
    show ?thesis
    proof (cases "len + int (length (py_strip p)) > chunk_size ch \<and> cur \<noteq> []")
      case emit: True
      then have big: "len + int (length (py_strip p)) > chunk_size ch" and ne: "cur \<noteq> []"
        by simp_all
      from ne have "solid (hd cur)" using Cons.prems(2) by simp
      with ne have j: "solid (py_join ''\<newline>\<newline>'' cur)" by (rule py_join_solid)
      have l: "solid (last cur)" using ne Cons.prems(2) by simp
      have c1: "\<forall>c \<in> set (chunks @ [py_join ''\<newline>\<newline>'' cur]). solid c"
        using Cons.prems(1) j by simp
      show ?thesis
      proof (cases "chunk_overlap ch > 0 \<and> length cur > 1")
        case True
        have c2: "\<forall>c \<in> set [last cur, py_strip p]. solid c" using l sp by simp
        show ?thesis
          unfolding semantic_loop_emit_overlap [OF False big ne True]
          using c1 c2 by (rule Cons.IH)
      next
        case no: False
        have c2: "\<forall>c \<in> set [py_strip p]. solid c" using sp by simp
        show ?thesis
          unfolding semantic_loop_emit [OF False big ne no]
          using c1 c2 by (rule Cons.IH)
      qed
    next
      case noemit: False
      have c2: "\<forall>c \<in> set (cur @ [py_strip p]). solid c" using Cons.prems(2) sp by simp
      show ?thesis
        unfolding semantic_loop_append [OF False noemit]
        using Cons.prems(1) c2 by (rule Cons.IH)
    qed
  qed
qed

lemma semantic_loop_nonempty:
  "cur \<noteq> [] \<or> (\<exists>p \<in> set ps. has_text p) \<Longrightarrow> semantic_loop ch chunks cur len ps \<noteq> []"
proof (induction ps arbitrary: chunks cur len)
  case Nil
  then show ?case by simp
next
  case (Cons p ps)
  show ?case
  proof (cases "py_strip p = []")
    case True
    then have "\<not> has_text p" by (simp add: py_strip_Nil_iff)
    with Cons.prems have "cur \<noteq> [] \<or> (\<exists>p \<in> set ps. has_text p)" by auto
    then show ?thesis unfolding semantic_loop_skip [OF True] by (rule Cons.IH)
  next
    case False
    show ?thesis
    proof (cases "len + int (length (py_strip p)) > chunk_size ch \<and> cur \<noteq> []")
      case emit: True
      then have big: "len + int (length (py_strip p)) > chunk_size ch" and ne: "cur \<noteq> []"
        by simp_all
      show ?thesis
      proof (cases "chunk_overlap ch > 0 \<and> length cur > 1")
        case True
        show ?thesis
          unfolding semantic_loop_emit_overlap [OF False big ne True]
          by (rule Cons.IH) simp
      next
        case no: False
        show ?thesis
          unfolding semantic_loop_emit [OF False big ne no]
          by (rule Cons.IH) simp
      qed
    next
      case noemit: False
      show ?thesis
        unfolding semantic_loop_append [OF False noemit]
        by (rule Cons.IH) simp
    qed
  qed
qed

lemma split_by_semantic_boundaries_solid:
  "\<forall>c \<in> set (split_by_semantic_boundaries ch text). solid c"
  unfolding split_by_semantic_boundaries_def by (rule semantic_loop_solid) simp_all

lemma split_by_semantic_boundaries_nonempty:
  "has_text text \<Longrightarrow> split_by_semantic_boundaries ch text \<noteq> []"
  unfolding split_by_semantic_boundaries_def
  by (rule semantic_loop_nonempty) (simp add: split_paragraphs_has_text)

subsection \<open>The sliding window\<close>

lemma py_rfind_ge: "- 1 \<le> py_rfind c text s e"
  by (simp add: py_rfind_def Let_def split: list.splits)

lemma window_end_gt:
  assumes "0 < chunk_size ch"
  shows "start < window_end ch text start"
  using assms by (simp add: window_end_def Let_def)

lemma window_end_adjusted:
  "window_end ch text start = start + chunk_size ch \<or> start + 2 \<le> window_end ch text start"
  by (simp add: window_end_def Let_def)

lemma split_loop_extends:
  "split_loop fuel ch text start acc = Some r \<Longrightarrow>
     \<exists>ext. r = acc @ ext \<and> (\<forall>c \<in> set ext. c \<noteq> [])"
proof (induction fuel arbitrary: start acc)
  case 0
  then show ?case by (simp split: if_splits)
next
  case (Suc fuel)
  show ?case
  proof (cases "start < int (length text)")
    case False
    with Suc.prems show ?thesis by simp
  next
    case True
    define chunk where "chunk = py_strip (py_slice text start (window_end ch text start))"
    define acc' where "acc' = (if chunk \<noteq> [] then acc @ [chunk] else acc)"
    from Suc.prems True have
      "split_loop fuel ch text (next_start ch text (window_end ch text start)) acc' = Some r"
      by (auto simp: Let_def chunk_def acc'_def split: if_splits)
    from Suc.IH [OF this] obtain ext where ext: "r = acc' @ ext" "\<forall>c \<in> set ext. c \<noteq> []"
      by blast
    show ?thesis
    proof (cases "chunk \<noteq> []")
      case True
      with ext have "r = acc @ (chunk # ext) \<and> (\<forall>c \<in> set (chunk # ext). c \<noteq> [])"
        by (simp add: acc'_def)
      then show ?thesis by blast
    next
      case False
      with ext show ?thesis by (auto simp: acc'_def)
    qed
  qed
qed

lemma first_chunk_nonempty:
  assumes "solid text" and "0 < chunk_size ch"
  shows "py_strip (py_slice text 0 (window_end ch text 0)) \<noteq> []"
proof -
  from assms(1) obtain c cs where tx: "text = c # cs" and c: "\<not> py_isspace c"
    by (cases "text") (auto simp: solid_def)
  have pos: "0 < window_end ch text 0" using assms(2) by (rule window_end_gt)
  then have "0 < py_norm (int (length text)) (window_end ch text 0)"
    by (simp add: py_norm_def tx)
  then obtain n where n: "py_norm (int (length text)) (window_end ch text 0) = Suc n"
    by (cases "py_norm (int (length text)) (window_end ch text 0)") auto
  have "py_slice text 0 (window_end ch text 0) = c # take n cs"
    by (simp add: py_slice_def Let_def n) (simp add: py_norm_def tx)
  then have "has_text (py_slice text 0 (window_end ch text 0))"
    using c by (simp add: has_text_iff)
  then show ?thesis by (simp add: py_strip_Nil_iff)
qed

lemma split_by_size_nonempty:
  assumes "solid text" and "0 < chunk_size ch" and "split_by_size fuel ch text = Some r"
  shows "r \<noteq> [] \<and> (\<forall>c \<in> set r. c \<noteq> [])"
proof -
  from assms(1) have len: "0 < int (length text)" by (cases "text") (auto simp: solid_def)
  have ne: "py_strip (py_slice text 0 (window_end ch text 0)) \<noteq> []"
    using assms(1,2) by (rule first_chunk_nonempty)
  from split_loop_extends [of fuel ch "text" 0 "[]" r] assms(3)
  have all: "\<forall>c \<in> set r. c \<noteq> []" by (auto simp: split_by_size_def)
  show ?thesis
  proof (cases fuel)
    case 0
    with assms(3) len show ?thesis by (simp add: split_by_size_def)
  next
    case (Suc fuel')
    with assms(3) len ne have
      "split_loop fuel' ch text (next_start ch text (window_end ch text 0))
         [py_strip (py_slice text 0 (window_end ch text 0))] = Some r"
      by (simp add: split_by_size_def Let_def)
    from split_loop_extends [OF this] have "r \<noteq> []" by auto
    with all show ?thesis by simp
  qed
qed

lemma chunk_text_loop_nonempty:
  assumes "\<forall>c \<in> set chunks. solid c" and "0 < chunk_size ch"
    and "\<forall>c \<in> set final. c \<noteq> []"
    and "chunk_text_loop fuel ch final chunks = Some r"
  shows "(\<forall>c \<in> set r. c \<noteq> []) \<and> (final \<noteq> [] \<or> chunks \<noteq> [] \<longrightarrow> r \<noteq> [])"
  using assms
proof (induction chunks arbitrary: final)
  case Nil
  then show ?case by simp
next
  case (Cons chunk chunks)
  have sc: "solid chunk" and rest: "\<forall>c \<in> set chunks. solid c" using Cons.prems(1) by simp_all
  show ?case
  proof (cases "int (length chunk) > chunk_size ch")
    case True
    with Cons.prems(4) obtain pieces where pieces: "split_by_size fuel ch chunk = Some pieces"
      and run: "chunk_text_loop fuel ch (final @ pieces) chunks = Some r"
      by (auto split: option.splits)
    from split_by_size_nonempty [OF sc Cons.prems(2) pieces]
    have p: "pieces \<noteq> []" "\<forall>c \<in> set pieces. c \<noteq> []" by simp_all
    have "\<forall>c \<in> set (final @ pieces). c \<noteq> []" using Cons.prems(3) p(2) by auto
    from Cons.IH [OF rest Cons.prems(2) this run] p(1) show ?thesis by simp
  next
    case False
    with Cons.prems(4) have run: "chunk_text_loop fuel ch (final @ [chunk]) chunks = Some r"
      by simp
    from sc have "chunk \<noteq> []" by (simp add: solid_iff)
    then have "\<forall>c \<in> set (final @ [chunk]). c \<noteq> []" using Cons.prems(3) by auto
    from Cons.IH [OF rest Cons.prems(2) this run] show ?thesis by simp
  qed
qed

lemma chunk_text_returned_nonempty:
  assumes "has_text text" and "0 < chunk_size ch" and "chunk_text fuel ch text = Some chunks"
  shows "chunks \<noteq> [] \<and> (\<forall>c \<in> set chunks. c \<noteq> [])"
proof -
  have "split_by_semantic_boundaries ch text \<noteq> []"
    using assms(1) by (rule split_by_semantic_boundaries_nonempty)
  moreover have "(\<forall>c \<in> set chunks. c \<noteq> []) \<and>
     ([] \<noteq> ([] :: string list) \<or> split_by_semantic_boundaries ch text \<noteq> [] \<longrightarrow> chunks \<noteq> [])"
    using assms(3) unfolding chunk_text_def
    by (intro chunk_text_loop_nonempty [OF split_by_semantic_boundaries_solid assms(2)]) simp_all
  ultimately show ?thesis by simp
qed

subsection \<open>Termination\<close>

text \<open>
  The window moves forward in every iteration when \<open>chunk_overlap\<close> is at most 1: the
  window's end is at least \<open>start + 2\<close> when a sentence ending shortens it, and
  \<open>start + chunk_size\<close> otherwise.
\<close>

lemma next_start_progress:
  assumes "0 < chunk_size ch" and "chunk_overlap ch < chunk_size ch" and "chunk_overlap ch \<le> 1"
  shows "start < next_start ch text (window_end ch text start)"
  using assms window_end_adjusted [of ch "text" start] window_end_gt [of ch start "text"]
  by (auto simp: next_start_def)

lemma split_loop_terminates:
  assumes "0 < chunk_size ch" and "chunk_overlap ch < chunk_size ch" and "chunk_overlap ch \<le> 1"
  shows "nat (int (length text) - start) \<le> fuel \<Longrightarrow>
           \<exists>r. split_loop fuel ch text start acc = Some r"
proof (induction fuel arbitrary: start acc)
  case 0
  then show ?case by simp
next
  case (Suc fuel)
  show ?case
  proof (cases "start < int (length text)")
    case False
    then show ?thesis by simp
  next
    case True
    have "start < next_start ch text (window_end ch text start)"
      using assms by (rule next_start_progress)
    with Suc.prems True
    have "nat (int (length text) - next_start ch text (window_end ch text start)) \<le> fuel"
      by linarith
    from Suc.IH [OF this] True show ?thesis by (simp add: Let_def)
  qed
qed

lemma split_loop_fuel_mono:
  "split_loop fuel ch text start acc = Some r \<Longrightarrow> split_loop (fuel + k) ch text start acc = Some r"
proof (induction fuel arbitrary: start acc)
  case 0
  then show ?case by (cases k) (simp_all split: if_splits)
next
  case (Suc fuel)
  then show ?case by (simp add: Let_def split: if_splits)
qed

lemma chunk_text_loop_fuel_mono:
  "chunk_text_loop fuel ch final chunks = Some r \<Longrightarrow>
     chunk_text_loop (fuel + k) ch final chunks = Some r"
proof (induction chunks arbitrary: final)
  case Nil
  then show ?case by simp
next
  case (Cons chunk chunks)
  show ?case
  proof (cases "int (length chunk) > chunk_size ch")
    case True
    with Cons.prems obtain pieces where pieces: "split_by_size fuel ch chunk = Some pieces"
      and run: "chunk_text_loop fuel ch (final @ pieces) chunks = Some r"
      by (auto split: option.splits)
    from pieces have "split_by_size (fuel + k) ch chunk = Some pieces"
      unfolding split_by_size_def by (rule split_loop_fuel_mono)
    with Cons.IH [OF run] True show ?thesis by simp
  next
    case False
    with Cons.prems Cons.IH show ?thesis by simp
  qed
qed

lemma chunk_text_fuel_independent:
  assumes "chunk_text fuel1 ch text = Some r1" and "chunk_text fuel2 ch text = Some r2"
  shows "r1 = r2"
proof -
  from assms(1) have "chunk_text (fuel1 + fuel2) ch text = Some r1"
    unfolding chunk_text_def by (rule chunk_text_loop_fuel_mono)
  moreover from assms(2) have "chunk_text (fuel2 + fuel1) ch text = Some r2"
    unfolding chunk_text_def by (rule chunk_text_loop_fuel_mono)
  ultimately show ?thesis by (simp add: add.commute)
qed

lemma chunk_text_loop_terminates:
  assumes "0 < chunk_size ch" and "chunk_overlap ch < chunk_size ch" and "chunk_overlap ch \<le> 1"
  shows "\<forall>c \<in> set chunks. length c \<le> fuel \<Longrightarrow>
           \<exists>r. chunk_text_loop fuel ch final chunks = Some r"
proof (induction chunks arbitrary: final)
  case Nil
  then show ?case by simp
next
  case (Cons chunk chunks)
  then have len: "length chunk \<le> fuel" and rest: "\<forall>c \<in> set chunks. length c \<le> fuel"
    by simp_all
  from len have "nat (int (length chunk) - 0) \<le> fuel" by simp
  from split_loop_terminates [OF assms this]
  obtain pieces where "split_by_size fuel ch chunk = Some pieces"
    unfolding split_by_size_def by blast
  with Cons.IH [OF rest] show ?case by simp
qed

lemma chunk_text_terminates:
  assumes "0 < chunk_size ch" and "chunk_overlap ch < chunk_size ch" and "chunk_overlap ch \<le> 1"
  shows "\<exists>fuel r. chunk_text fuel ch text = Some r"
proof -
  define fuel where "fuel = length (concat (split_by_semantic_boundaries ch text))"
  have "\<forall>c \<in> set (split_by_semantic_boundaries ch text). length c \<le> fuel"
    unfolding fuel_def length_concat by (auto intro: member_le_sum_list)
  from chunk_text_loop_terminates [OF assms this] show ?thesis
    unfolding chunk_text_def by blast
qed

text \<open>
  With \<open>chunk_size = 10\<close> and \<open>chunk_overlap = 5\<close> on \<open>sentence_text\<close>: the first window
  \<open>[0, 10)\<close> is cut back to end after the full stop at index 5, so \<open>end = 6\<close> and the next
  \<open>start\<close> is 1; the window \<open>[1, 11)\<close> is cut back to \<open>end = 6\<close> again, and the next
  \<open>start\<close> is 1 once more.
\<close>

lemma looping_length: "length sentence_text = 26"
  by (simp add: sentence_text_def)

lemma looping_semantic:
  "split_by_semantic_boundaries looping_chunker sentence_text = [sentence_text]"
  by code_simp

lemma looping_window_0: "window_end looping_chunker sentence_text 0 = 6"
  by code_simp

lemma looping_window_1: "window_end looping_chunker sentence_text 1 = 6"
  by code_simp

lemma looping_next: "next_start looping_chunker sentence_text 6 = 1"
  by (simp add: next_start_def looping_length looping_chunker_def)

lemma looping_from_1: "split_loop fuel looping_chunker sentence_text 1 chunks = None"
  by (induction fuel arbitrary: chunks)
     (simp_all add: looping_length looping_window_1 looping_next Let_def)

lemma looping_split: "split_by_size fuel looping_chunker sentence_text = None"
  by (cases fuel)
     (simp_all add: split_by_size_def looping_length looping_window_0 looping_next
        looping_from_1 Let_def)

text \<open>
  C10. The claim: \<open>chunk_text\<close> terminates for every input and every configuration with
  \<open>chunk_size > 0\<close> and \<open>0 \<le> chunk_overlap < chunk_size\<close>. On \<open>sentence_text\<close> with
  \<open>chunk_size = 10\<close> and \<open>chunk_overlap = 5\<close> the loop of \<open>_split_by_size\<close> never leaves
  \<open>start = 1\<close>: no number of iterations is enough for \<open>chunk_text\<close> to return.
\<close>

theorem chunk_text_never_returns:
  "chunk_size looping_chunker > 0 \<and> 0 \<le> chunk_overlap looping_chunker \<and>
   chunk_overlap looping_chunker < chunk_size looping_chunker \<and>
   (\<forall>fuel. chunk_text fuel looping_chunker sentence_text = None)"
  by (simp add: chunk_text_def looping_semantic looping_split looping_length)
     (simp add: looping_chunker_def)

text \<open>
  A string of one space is not empty, and \<open>chunk_text\<close> returns no chunk for it: the
  paragraph is empty once stripped, and empty paragraphs are skipped.
\<close>

theorem blank_input_counterexample:
  "'' '' \<noteq> [] \<and> chunk_text 10 test_chunker '' '' = Some []"
  by code_simp

lemma narrow_has_text: "has_text sentence_text"
  by code_simp

lemma narrow_chunk_text:
  "chunk_text 10 narrow_chunker sentence_text
     = Some [''aaaaa.'', ''.bbbbbbbbb'', ''bbbbbbbbbb'', ''bbb'']"
  by code_simp

text \<open>
  C4, amended. For every input string with at least one character that is not white
  space, and every chunker with \<open>chunk_size > 0\<close>: every list of chunks that \<open>chunk_text\<close>
  returns is non-empty and holds no empty chunk; and \<open>chunk_text\<close> does return when
  \<open>chunk_overlap\<close> is at most 1 and below \<open>chunk_size\<close>.
\<close>

theorem chunk_text_chunks_nonempty:
  assumes "has_text text" and "0 < chunk_size ch"
  shows "(\<forall>fuel chunks. chunk_text fuel ch text = Some chunks \<longrightarrow>
            chunks \<noteq> [] \<and> (\<forall>c \<in> set chunks. c \<noteq> [])) \<and>
         (chunk_overlap ch \<le> 1 \<and> chunk_overlap ch < chunk_size ch \<longrightarrow>
            (\<exists>fuel chunks. chunk_text fuel ch text = Some chunks))"
  using chunk_text_returned_nonempty [OF assms] chunk_text_terminates [OF assms(2)]
  by blast

theorem chunk_text_chunks_nonempty_witness:
  "has_text sentence_text \<and> 0 < chunk_size narrow_chunker \<and>
   chunk_overlap narrow_chunker \<le> 1 \<and> chunk_overlap narrow_chunker < chunk_size narrow_chunker \<and>
   chunk_text 10 narrow_chunker sentence_text
     = Some [''aaaaa.'', ''.bbbbbbbbb'', ''bbbbbbbbbb'', ''bbb''] \<and>
   [''aaaaa.'', ''.bbbbbbbbb'', ''bbbbbbbbbb'', ''bbb''] \<noteq> []"
  using chunk_text_chunks_nonempty [OF narrow_has_text, of narrow_chunker]
    narrow_has_text narrow_chunk_text
  by (simp add: narrow_chunker_def)

subsection \<open>Overlap\<close>










end
